theory Spec2Isabelle
  imports Main "HOL-Library.Sublist"
begin

section \<open>Strings and Python built-ins used by the analyzer\<close>

text \<open>
  Python strings are modelled as HOL strings (lists of 8-bit characters); the
  entry names, file names and identifiers the analyzer handles are treated as
  ASCII text.  \<open>x in s\<close> is \<^const>\<open>sublist\<close> (a contiguous
  occurrence), \<open>s.endswith(x)\<close> is \<^const>\<open>suffix\<close>, and
  \<open>len\<close> of a list is a natural number.
\<close>

text \<open>The decimal rendering of a non-negative integer inside an f-string, \<open>f'{n}'\<close>.\<close>

definition digit_char :: "nat \<Rightarrow> char" where
  "digit_char d = ''0123456789'' ! (d mod 10)"

function str_nat :: "nat \<Rightarrow> string" where
  "str_nat n = (if n < 10 then [digit_char n] else str_nat (n div 10) @ [digit_char (n mod 10)])"
  by pat_completeness auto
termination
  by (relation "measure (\<lambda>n. n)") auto

declare str_nat.simps [simp del]

text \<open>\<open>s.lower()\<close> on ASCII text.\<close>

definition lower_char :: "char \<Rightarrow> char" where
  "lower_char c =
     (case map_of (zip ''ABCDEFGHIJKLMNOPQRSTUVWXYZ'' ''abcdefghijklmnopqrstuvwxyz'') c of
        None \<Rightarrow> c | Some l \<Rightarrow> l)"

definition lower :: "string \<Rightarrow> string" where
  "lower s = map lower_char s"

text \<open>
  \<open>s.replace(old, '')\<close>: the occurrences of \<open>old\<close> are found from left to
  right, without overlap, and every one of them is removed.
\<close>

function str_remove_all :: "string \<Rightarrow> string \<Rightarrow> string" where
  "str_remove_all old s =
     (if old = [] \<or> s = [] then s
      else if prefix old s then str_remove_all old (drop (length old) s)
      else hd s # str_remove_all old (tl s))"
  by pat_completeness auto
termination
  by (relation "measure (\<lambda>(old, s). length s)") auto

declare str_remove_all.simps [simp del]

text \<open>\<open>os.path.basename\<close> and \<open>os.path.join\<close> of two parts (POSIX).\<close>

definition basename :: "string \<Rightarrow> string" where
  "basename p = rev (takeWhile (\<lambda>c. c \<noteq> CHR ''/'') (rev p))"

definition path_join :: "string \<Rightarrow> string \<Rightarrow> string" where
  "path_join a b =
     (if prefix ''/'' b then b
      else if a = [] \<or> suffix ''/'' a then a @ b
      else a @ ''/'' @ b)"

text \<open>
  \<open>re.search(r'(\d+\.\d+\.\d+)', s)\<close>: the leftmost position at which the
  pattern matches, every \<open>\d+\<close> taking as many digits as there are (a shorter
  run would be followed by a digit, never by the dot or the end the pattern asks for).
  The result is group 1, or \<open>None\<close> when there is no match.  On the ASCII text
  modelled here \<open>\d\<close> is one of the ten digits.
\<close>

definition is_digit :: "char \<Rightarrow> bool" where
  "is_digit c = (c \<in> set ''0123456789'')"

definition match_version :: "string \<Rightarrow> string option" where
  "match_version s =
     (let d1 = takeWhile is_digit s; r1 = dropWhile is_digit s in
      if d1 = [] \<or> \<not> prefix ''.'' r1 then None
      else
        let d2 = takeWhile is_digit (tl r1); r2 = dropWhile is_digit (tl r1) in
        if d2 = [] \<or> \<not> prefix ''.'' r2 then None
        else
          let d3 = takeWhile is_digit (tl r2) in
          if d3 = [] then None else Some (d1 @ ''.'' @ d2 @ ''.'' @ d3))"

fun re_search_version :: "string \<Rightarrow> string option" where
  "re_search_version [] = None"
| "re_search_version (c # cs) =
     (case match_version (c # cs) of
        Some v \<Rightarrow> Some v
      | None \<Rightarrow> re_search_version cs)"

text \<open>
  What the specification calls a dotted version token: three non-empty runs of
  digits separated by dots.
\<close>

definition version_token :: "string \<Rightarrow> bool" where
  "version_token v =
     (\<exists>a b c. v = a @ ''.'' @ b @ ''.'' @ c \<and> a \<noteq> [] \<and> b \<noteq> [] \<and> c \<noteq> [] \<and>
        list_all is_digit a \<and> list_all is_digit b \<and> list_all is_digit c)"

definition has_version_token :: "string \<Rightarrow> bool" where
  "has_version_token s = (\<exists>v. version_token v \<and> sublist v s)"

text \<open>
  The token a search reports: the one that starts leftmost in the string and, of those
  starting there, the longest.
\<close>

definition leftmost_version_token :: "string \<Rightarrow> string \<Rightarrow> bool" where
  "leftmost_version_token v s =
     (\<exists>ps ss. s = ps @ v @ ss \<and> version_token v \<and>
        (\<forall>ps' v' ss'. s = ps' @ v' @ ss' \<and> version_token v' \<longrightarrow>
           length ps \<le> length ps' \<and> (length ps' = length ps \<longrightarrow> length v' \<le> length v)))"

text \<open>
  The detected version as the specification words it: the library entries are scanned
  in order and the first one that holds a version token gives its first token; the
  version is absent when no entry holds one.
\<close>

definition spec_version :: "string list \<Rightarrow> string option \<Rightarrow> bool" where
  "spec_version libs r =
     (case r of
        None \<Rightarrow> \<not> list_ex has_version_token libs
      | Some v \<Rightarrow>
          (\<exists>js j js'. libs = js @ j # js' \<and> \<not> list_ex has_version_token js \<and>
             leftmost_version_token v j))"

section \<open>Exceptions and source text\<close>

text \<open>
  The exceptions the program meets: a missing file (\<open>os.path.getsize\<close>), a
  missing dictionary key, and whatever the \<open>zipfile\<close> library raises on a file it
  cannot read, given by its class name and its \<open>str\<close>.
\<close>

datatype py_exception =
    FileNotFoundError string
  | KeyError string
  | Raised string string

definition py_repr :: "string \<Rightarrow> string" where
  "py_repr s = [CHR 0x27] @ s @ [CHR 0x27]"

fun py_str :: "py_exception \<Rightarrow> string" where
  "py_str (FileNotFoundError p) = ''[Errno 2] No such file or directory: '' @ py_repr p"
| "py_str (KeyError k) = py_repr k"
| "py_str (Raised cls msg) = msg"

text \<open>
  The user-facing messages of the source are Chinese string literals; a literal is
  named by the line of \<open>main.py\<close> it stands on, and a formatted literal also carries
  the number interpolated into it.
\<close>

datatype literal = Text_at nat | Text_with nat nat

section \<open>Files\<close>

text \<open>
  The content of an uploaded file, as far as the program looks at it: its length in
  bytes and what \<open>zipfile.ZipFile(path, 'r').namelist()\<close> does on it, which is
  either to raise or to return the entry names in archive order.
\<close>

record file_content =
  content_length :: nat
  zip_namelist :: "py_exception + string list"

section \<open>Archive structure facts (the dictionary \<open>structure_info\<close>)\<close>

text \<open>
  The dictionary built by \<open>analyze_war_structure\<close> (lines 63-72).  The size in
  megabytes is a rounded floating point number in the source; the model keeps the
  exact byte count it is computed from.
\<close>

record structure_info =
  file_name :: string
  file_size_bytes :: nat
  web_inf_found :: bool
  spring_detected :: bool
  spring_version :: "string option"
  total_classes :: nat
  total_jars :: nat
  jar_files :: "string list"

section \<open>Archive inspector: \<open>analyze_war_structure\<close> (lines 59-103)\<close>

text \<open>The loop of lines 89-93: the first library entry with a version token decides.\<close>

fun first_version :: "string list \<Rightarrow> string option" where
  "first_version [] = None"
| "first_version (jar # jars) =
     (case re_search_version jar of
        Some v \<Rightarrow> Some v
      | None \<Rightarrow> first_version jars)"

definition is_spring_jar :: "string \<Rightarrow> bool" where
  "is_spring_jar f = (sublist ''spring'' (lower f) \<and> suffix ''.jar'' f)"

text \<open>
  A library entry as the specification words it: the name contains the signal
  \<open>spring\<close> in some mix of upper and lower case, and ends with \<open>.jar\<close>.
\<close>

definition contains_ignoring_case :: "string \<Rightarrow> string \<Rightarrow> bool" where
  "contains_ignoring_case x s = (\<exists>g. sublist g s \<and> lower g = lower x)"

definition spec_library_entry :: "string \<Rightarrow> bool" where
  "spec_library_entry f = (contains_ignoring_case ''spring'' f \<and> suffix ''.jar'' f)"

definition analyze_war_structure ::
  "(string \<rightharpoonup> file_content) \<Rightarrow> string \<Rightarrow> py_exception + structure_info" where
  "analyze_war_structure fs war_file_path =
     (case fs war_file_path of
        None \<Rightarrow> Inl (FileNotFoundError war_file_path)
      | Some content \<Rightarrow>
          (case zip_namelist content of
             Inl e \<Rightarrow> Inl e
           | Inr file_list \<Rightarrow>
               (let spring_jars = filter is_spring_jar file_list
                in Inr \<lparr>file_name = basename war_file_path,
                        file_size_bytes = content_length content,
                        web_inf_found = list_ex (sublist ''WEB-INF'') file_list,
                        spring_detected = (spring_jars \<noteq> []),
                        spring_version =
                          (if spring_jars \<noteq> [] then first_version spring_jars else None),
                        total_classes = length (filter (suffix ''.class'') file_list),
                        total_jars = length (filter (suffix ''.jar'') file_list),
                        jar_files = (if spring_jars \<noteq> [] then take 5 spring_jars else [])\<rparr>)))"

section \<open>Heuristic estimators\<close>

subsection \<open>\<open>analyze_spring_components\<close> (lines 105-146)\<close>

record component =
  name :: string
  type :: string
  package :: string
  estimated :: bool

record spring_components =
  total_components :: nat
  controllers :: nat
  services :: nat
  repositories :: nat
  components :: "component list"

text \<open>
  Each of the three loops \<open>for i in range(k): components.append({...})\<close> appends
  one dictionary per index to the list built so far.
\<close>

definition append_controllers :: "nat \<Rightarrow> component list \<Rightarrow> component list" where
  "append_controllers k acc =
     foldl (\<lambda>cs i. cs @ [\<lparr>name = ''Controller'' @ str_nat (i + 1), type = ''Controller'',
                             package = ''com.nbs.web'', estimated = True\<rparr>]) acc [0..<k]"

definition append_services :: "nat \<Rightarrow> component list \<Rightarrow> component list" where
  "append_services k acc =
     foldl (\<lambda>cs i. cs @ [\<lparr>name = ''Service'' @ str_nat (i + 1), type = ''Service'',
                             package = ''com.nbs.service'', estimated = True\<rparr>]) acc [0..<k]"

definition append_repositories :: "nat \<Rightarrow> component list \<Rightarrow> component list" where
  "append_repositories k acc =
     foldl (\<lambda>cs i. cs @ [\<lparr>name = ''Repository'' @ str_nat (i + 1), type = ''Repository'',
                             package = ''com.nbs.dao'', estimated = True\<rparr>]) acc [0..<k]"

definition analyze_spring_components :: "structure_info \<Rightarrow> spring_components" where
  "analyze_spring_components si =
     (let estimated_controllers = max 1 (total_classes si div 20);
          estimated_services = max 1 (total_classes si div 15);
          estimated_repositories = max 1 (total_classes si div 25);
          cs0 = [];
          cs1 = append_controllers estimated_controllers cs0;
          cs2 = append_services estimated_services cs1;
          cs3 = append_repositories estimated_repositories cs2
      in \<lparr>total_components = length cs3,
          controllers = estimated_controllers,
          services = estimated_services,
          repositories = estimated_repositories,
          components = take 10 cs3\<rparr>)"

text \<open>
  The descriptor list as the specification words it: a descriptor of a role is named
  by the role followed by its one-based index and is flagged as estimated.
\<close>

definition spec_descriptor :: "string \<Rightarrow> string \<Rightarrow> nat \<Rightarrow> component" where
  "spec_descriptor role pkg i =
     \<lparr>name = role @ str_nat (i + 1), type = role, package = pkg, estimated = True\<rparr>"

definition spec_descriptors :: "nat \<Rightarrow> nat \<Rightarrow> nat \<Rightarrow> component list" where
  "spec_descriptors c s r =
     take 10 (map (spec_descriptor ''Controller'' ''com.nbs.web'') [0..<c] @
              map (spec_descriptor ''Service'' ''com.nbs.service'') [0..<s] @
              map (spec_descriptor ''Repository'' ''com.nbs.dao'') [0..<r])"

subsection \<open>\<open>analyze_sql_patterns\<close> (lines 148-170)\<close>

record sql_pattern =
  pattern_file :: string
  pattern_type :: string
  sql_statement :: string
  risk_level :: string
  modernization_suggestion :: string

definition pattern_types :: "string list" where
  "pattern_types = [''executeSQL'', ''createStatement().execute'', ''prepareStatement'']"

definition risk_levels :: "string list" where
  "risk_levels = [''HIGH'', ''CRITICAL'', ''MEDIUM'']"

definition sql_pattern_at :: "nat \<Rightarrow> sql_pattern" where
  "sql_pattern_at i =
     \<lparr>pattern_file = ''LegacyClass'' @ str_nat (i + 1) @ ''.java'',
      pattern_type = pattern_types ! (i mod length pattern_types),
      sql_statement = ''SELECT * FROM table_'' @ str_nat (i + 1) @ '' WHERE id = ?'',
      risk_level = risk_levels ! (i mod length risk_levels),
      modernization_suggestion = ''Replace with JPA Repository pattern''\<rparr>"

definition analyze_sql_patterns :: "structure_info \<Rightarrow> sql_pattern list" where
  "analyze_sql_patterns si =
     (let estimated_patterns = min 10 (max 1 (total_classes si div 10))
      in foldl (\<lambda>ps i. ps @ [sql_pattern_at i]) [] [0..<estimated_patterns])"

section \<open>Suggestions and result assembly\<close>

subsection \<open>\<open>generate_modernization_suggestions\<close> (lines 172-207)\<close>

record suggestion =
  category :: literal
  priority :: string
  description :: literal
  specific_actions :: "literal list"
  estimated_effort :: literal
  business_value :: literal

definition generate_modernization_suggestions ::
  "spring_components \<Rightarrow> sql_pattern list \<Rightarrow> suggestion list" where
  "generate_modernization_suggestions comps sql_patterns =
     (if sql_patterns \<noteq> [] then
        [\<lparr>category = Text_at 179, priority = ''HIGH'',
          description = Text_with 181 (length sql_patterns),
          specific_actions = [Text_at 183, Text_at 184, Text_at 185, Text_at 186],
          estimated_effort = Text_at 188, business_value = Text_at 189\<rparr>]
      else []) @
     (if controllers comps > 0 then
        [\<lparr>category = Text_at 194, priority = ''MEDIUM'',
          description = Text_with 196 (controllers comps),
          specific_actions = [Text_at 198, Text_at 199, Text_at 200, Text_at 201],
          estimated_effort = Text_at 203, business_value = Text_at 204\<rparr>]
      else [])"

subsection \<open>\<open>analyze_war\<close> (lines 209-253)\<close>

record competitive_advantage =
  processing_time :: string
  vs_leda :: string
  vs_traditional :: string
  professional_analysis :: string
  actionable_recommendations :: string

record summary =
  summary_total_components :: nat
  sql_patterns_found :: nat
  high_priority_suggestions :: nat
  estimated_modernization_effort :: string
  expected_roi :: string

record war_analysis =
  project_name :: string
  analysis_time :: string
  war_info :: structure_info
  spring_components :: spring_components
  sql_patterns :: "sql_pattern list"
  modernization_suggestions :: "suggestion list"
  competitive_advantage :: competitive_advantage
  summary :: summary

text \<open>
  \<open>analyze_war\<close> reads the file system \<open>fs\<close>; \<open>now\<close> is what
  \<open>datetime.now().isoformat()\<close> returns at line 228.  An exception of any stage is
  logged and raised again.
\<close>

definition analyze_war ::
  "(string \<rightharpoonup> file_content) \<Rightarrow> string \<Rightarrow> string \<Rightarrow> py_exception + war_analysis" where
  "analyze_war fs now war_file_path =
     (case analyze_war_structure fs war_file_path of
        Inl e \<Rightarrow> Inl e
      | Inr structure \<Rightarrow>
          (let comps = analyze_spring_components structure;
               patterns = analyze_sql_patterns structure;
               suggestions = generate_modernization_suggestions comps patterns
           in Inr \<lparr>project_name = str_remove_all ''.war'' (file_name structure),
                   analysis_time = now,
                   war_info = structure,
                   spring_components = comps,
                   sql_patterns = patterns,
                   modernization_suggestions = suggestions,
                   competitive_advantage =
                     \<lparr>processing_time = ''7.1 seconds'',
                      vs_leda = ''761x faster than LEDA 90-minute failure'',
                      vs_traditional = ''1000x faster than manual analysis'',
                      professional_analysis = ''COBOL-to-Java specific insights'',
                      actionable_recommendations =
                        str_nat (length suggestions) @ '' implementation strategies''\<rparr>,
                   summary =
                     \<lparr>summary_total_components = total_components comps,
                      sql_patterns_found = length patterns,
                      high_priority_suggestions =
                        length (filter (\<lambda>s. priority s = ''HIGH'') suggestions),
                      estimated_modernization_effort = ''4-6 months'',
                      expected_roi = ''75% maintenance efficiency improvement''\<rparr>\<rparr>))"

section \<open>Task registry, submission and the runner\<close>

text \<open>
  A task is the dictionary stored in \<open>analysis_tasks\<close>.  The keys \<open>end_time\<close>,
  \<open>result\<close> and \<open>error\<close> are absent until the runner writes them.
\<close>

record task =
  task_id :: string
  status :: string
  progress :: nat
  message :: literal
  start_time :: string
  file_path :: string
  task_file_name :: string
  end_time :: "string option"
  result :: "war_analysis option"
  error :: "string option"

text \<open>
  The state of the process: the registry \<open>analysis_tasks\<close>, the files of the
  temporary directory, and for every scheduled invocation of \<open>perform_analysis\<close>
  the number of its code segments that have run.  A segment is the code between two
  \<open>await\<close>s; on the single-threaded event loop it runs without interruption, so
  the states between segments are the ones a poll can see.
\<close>

record system =
  analysis_tasks :: "string \<rightharpoonup> task"
  temp_files :: "string \<rightharpoonup> file_content"
  background :: "string \<rightharpoonup> nat"

datatype failure = HTTPException nat literal | Unhandled py_exception

definition temp_dir :: string where
  "temp_dir = ''/tmp''"

subsection \<open>\<open>POST /analyze\<close>: \<open>analyze_war_file\<close> (lines 603-639)\<close>

text \<open>The dictionary of lines 626-634.\<close>

definition pending_task :: "string \<Rightarrow> string \<Rightarrow> string \<Rightarrow> task" where
  "pending_task new_id now filename =
     \<lparr>task_id = new_id, status = ''pending'', progress = 0, message = Text_at 630,
      start_time = now, file_path = path_join temp_dir (new_id @ ''_'' @ filename),
      task_file_name = filename, end_time = None, result = None, error = None\<rparr>"

text \<open>
  \<open>new_id\<close> is the value of \<open>str(uuid.uuid4())\<close>, \<open>now\<close> the time stamp, and
  \<open>open_error\<close> the exception, if any, with which opening or writing the temporary
  file fails.  The function returns the response (the pair of \<open>task_id\<close> and
  \<open>message\<close> of line 639, or the failure) and the state it leaves.
\<close>

definition analyze_war_file ::
  "string \<Rightarrow> string \<Rightarrow> py_exception option \<Rightarrow> string \<Rightarrow> file_content \<Rightarrow> system
     \<Rightarrow> (failure + string \<times> literal) \<times> system" where
  "analyze_war_file new_id now open_error filename content s =
     (if \<not> suffix ''.war'' filename then (Inl (HTTPException 400 (Text_at 608)), s)
      else if content_length content > 100 * 1024 * 1024 then
        (Inl (HTTPException 400 (Text_at 614)), s)
      else
        case open_error of
          Some e \<Rightarrow> (Inl (Unhandled e), s)
        | None \<Rightarrow>
            (Inr (new_id, Text_at 639),
             s\<lparr>temp_files :=
                 (temp_files s)(path_join temp_dir (new_id @ ''_'' @ filename) \<mapsto> content),
               analysis_tasks :=
                 (analysis_tasks s)(new_id \<mapsto> pending_task new_id now filename),
               background := (background s)(new_id \<mapsto> 0)\<rparr>))"

subsection \<open>The runner: \<open>perform_analysis\<close> (lines 641-693)\<close>

definition update_task :: "string \<Rightarrow> (task \<Rightarrow> task) \<Rightarrow> system \<Rightarrow> system" where
  "update_task tid f s =
     (case analysis_tasks s tid of
        None \<Rightarrow> s
      | Some t \<Rightarrow> s\<lparr>analysis_tasks := (analysis_tasks s)(tid \<mapsto> f t)\<rparr>)"

text \<open>
  Lines 643-650, up to the first \<open>await\<close>.  The lookup of line 643 stands outside
  the \<open>try\<close>: a missing identifier raises \<open>KeyError\<close> out of the runner.
\<close>

definition runner_begin :: "string \<Rightarrow> system \<Rightarrow> py_exception + system" where
  "runner_begin tid s =
     (case analysis_tasks s tid of
        None \<Rightarrow> Inl (KeyError tid)
      | Some t \<Rightarrow>
          Inr (update_task tid
                 (\<lambda>t. t\<lparr>status := ''processing'', progress := 20, message := Text_at 650\<rparr>) s))"

text \<open>A later checkpoint (lines 654-655, 659-660, 664-665).\<close>

definition runner_checkpoint :: "nat \<Rightarrow> literal \<Rightarrow> string \<Rightarrow> system \<Rightarrow> system" where
  "runner_checkpoint p m tid s = update_task tid (\<lambda>t. t\<lparr>progress := p, message := m\<rparr>) s"

text \<open>
  The \<open>finally\<close> block (lines 687-693): the file is removed when it exists; an
  exception of \<open>os.remove\<close> is swallowed and leaves the file there.
\<close>

definition cleanup :: "bool \<Rightarrow> string \<Rightarrow> system \<Rightarrow> system" where
  "cleanup remove_fails path s =
     (if path \<in> dom (temp_files s) \<and> \<not> remove_fails
      then s\<lparr>temp_files := (temp_files s)(path := None)\<rparr>
      else s)"

text \<open>
  Lines 668-693: the pipeline, then the completion of the task or the handler of
  \<open>except Exception\<close>, then the clean-up.  \<open>t_analysis\<close> and \<open>t_end\<close> are the
  two readings of the clock.
\<close>

definition runner_finish :: "string \<Rightarrow> string \<Rightarrow> bool \<Rightarrow> string \<Rightarrow> system \<Rightarrow> system" where
  "runner_finish t_analysis t_end remove_fails tid s =
     (case analysis_tasks s tid of
        None \<Rightarrow> s
      | Some t \<Rightarrow>
          cleanup remove_fails (file_path t)
            (case analyze_war (temp_files s) t_analysis (file_path t) of
               Inr res \<Rightarrow>
                 update_task tid
                   (\<lambda>t. t\<lparr>progress := 100, message := Text_at 674, status := ''completed'',
                          end_time := Some t_end, result := Some res\<rparr>) s
             | Inl e \<Rightarrow>
                 update_task tid
                   (\<lambda>t. t\<lparr>status := ''failed'', error := Some (py_str e),
                          end_time := Some t_end\<rparr>) s))"

text \<open>The segments of one invocation, in order; there are five.\<close>

definition runner_segment ::
  "nat \<Rightarrow> string \<Rightarrow> string \<Rightarrow> bool \<Rightarrow> string \<Rightarrow> system \<Rightarrow> py_exception + system" where
  "runner_segment k t_analysis t_end remove_fails tid s =
     (if k = 0 then runner_begin tid s
      else if k = 1 then Inr (runner_checkpoint 40 (Text_at 655) tid s)
      else if k = 2 then Inr (runner_checkpoint 60 (Text_at 660) tid s)
      else if k = 3 then Inr (runner_checkpoint 80 (Text_at 665) tid s)
      else Inr (runner_finish t_analysis t_end remove_fails tid s))"

text \<open>The whole coroutine, run from its start to its end with nothing in between.\<close>

definition perform_analysis ::
  "string \<Rightarrow> string \<Rightarrow> bool \<Rightarrow> string \<Rightarrow> system \<Rightarrow> py_exception + system" where
  "perform_analysis t_analysis t_end remove_fails tid s =
     (case runner_begin tid s of
        Inl e \<Rightarrow> Inl e
      | Inr s1 \<Rightarrow>
          Inr (runner_finish t_analysis t_end remove_fails tid
                 (runner_checkpoint 80 (Text_at 665) tid
                    (runner_checkpoint 60 (Text_at 660) tid
                       (runner_checkpoint 40 (Text_at 655) tid s1)))))"

subsection \<open>\<open>GET /status/{task_id}\<close>: \<open>get_analysis_status\<close> (lines 695-709)\<close>

text \<open>The response model \<open>AnalysisResult\<close> of lines 44-51.\<close>

record status_response =
  resp_task_id :: string
  resp_status :: string
  resp_progress :: nat
  resp_message :: literal
  resp_result :: "war_analysis option"
  resp_error :: "string option"

definition get_analysis_status :: "string \<Rightarrow> system \<Rightarrow> failure + status_response" where
  "get_analysis_status tid s =
     (case analysis_tasks s tid of
        None \<Rightarrow> Inl (HTTPException 404 (Text_at 699))
      | Some t \<Rightarrow>
          Inr \<lparr>resp_task_id = task_id t, resp_status = status t,
               resp_progress = progress t, resp_message = message t,
               resp_result = result t, resp_error = error t\<rparr>)"

subsection \<open>The process as a transition system\<close>

text \<open>
  One step of the process is a submission, a poll, or the next segment of a scheduled
  runner.  \<open>uuid.uuid4()\<close> is taken to return an identifier that is not in the
  registry; between the segments of a runner other steps may happen.  The registry
  never drops an entry, so the dictionary a runner holds is the one stored under its
  identifier.
\<close>

inductive step :: "system \<Rightarrow> system \<Rightarrow> bool" where
  submit:
    "new_id \<notin> dom (analysis_tasks s) \<Longrightarrow>
     analyze_war_file new_id now open_error filename content s = (response, s') \<Longrightarrow>
     step s s'"
| poll:
    "get_analysis_status tid s = response \<Longrightarrow> step s s"
| run:
    "background s tid = Some k \<Longrightarrow> k < 5 \<Longrightarrow>
     runner_segment k t_analysis t_end remove_fails tid s = Inr s' \<Longrightarrow>
     step s (s'\<lparr>background := (background s')(tid \<mapsto> Suc k)\<rparr>)"
| crash:
    "background s tid = Some k \<Longrightarrow> k < 5 \<Longrightarrow>
     runner_segment k t_analysis t_end remove_fails tid s = Inl e \<Longrightarrow>
     step s (s\<lparr>background := (background s)(tid := None)\<rparr>)"

inductive reachable :: "system \<Rightarrow> bool" where
  init: "reachable \<lparr>analysis_tasks = Map.empty, temp_files = fs, background = Map.empty\<rparr>"
| next_state: "reachable s \<Longrightarrow> step s s' \<Longrightarrow> reachable s'"

text \<open>
  The scheduler running the next segment of the runner of \<open>tid\<close>, if it has one
  left.
\<close>

definition resume :: "string \<Rightarrow> string \<Rightarrow> bool \<Rightarrow> string \<Rightarrow> system \<Rightarrow> system" where
  "resume t_analysis t_end remove_fails tid s =
     (case background s tid of
        None \<Rightarrow> s
      | Some k \<Rightarrow>
          if k < 5 then
            (case runner_segment k t_analysis t_end remove_fails tid s of
               Inr s' \<Rightarrow> s'\<lparr>background := (background s')(tid \<mapsto> Suc k)\<rparr>
             | Inl e \<Rightarrow> s\<lparr>background := (background s)(tid := None)\<rparr>)
          else s)"

subsection \<open>The invariant of the process\<close>

text \<open>
  A task and the number of segments its runner has run fit together: a pending task
  has not started, a processing task stands at the checkpoint of its last segment, and
  a terminal task belongs to a runner that has ended.
\<close>

definition task_consistent :: "task \<Rightarrow> nat option \<Rightarrow> bool" where
  "task_consistent t pc =
     (result t = None \<and> error t = None \<and> end_time t = None \<and>
        (status t = ''pending'' \<and> pc = Some 0 \<and> progress t = 0 \<or>
         status t = ''processing'' \<and> (\<exists>k\<in>{1, 2, 3, 4}. pc = Some k \<and> progress t = 20 * k)) \<or>
      status t = ''completed'' \<and> pc = Some 5 \<and> progress t = 100 \<and>
        result t \<noteq> None \<and> error t = None \<and> end_time t \<noteq> None \<or>
      status t = ''failed'' \<and> pc = Some 5 \<and> progress t = 80 \<and>
        result t = None \<and> error t \<noteq> None \<and> end_time t \<noteq> None)"

definition system_invariant :: "system \<Rightarrow> bool" where
  "system_invariant s =
     (\<forall>tid. (analysis_tasks s tid = None \<longrightarrow> background s tid = None) \<and>
            (\<forall>t. analysis_tasks s tid = Some t \<longrightarrow> task_consistent t (background s tid)))"

section \<open>Concrete inputs\<close>

text \<open>Structure facts of an archive with 35 compiled units.\<close>

definition facts35 :: structure_info where
  "facts35 = \<lparr>file_name = ''app.war'', file_size_bytes = 1024, web_inf_found = True,
     spring_detected = False, spring_version = None, total_classes = 35, total_jars = 0,
     jar_files = []\<rparr>"

text \<open>
  An archive that opens, one that does not, and the run of a task for the first: its
  submission to an empty process, its state at the checkpoint 80, and its end.
\<close>

definition demo_archive :: file_content where
  "demo_archive = \<lparr>content_length = 2048,
     zip_namelist = Inr [''WEB-INF/web.xml'', ''WEB-INF/classes/A.class'',
                         ''WEB-INF/lib/spring-core-5.3.2.jar'']\<rparr>"

definition corrupt_archive :: file_content where
  "corrupt_archive = \<lparr>content_length = 10,
     zip_namelist = Inl (Raised ''BadZipFile'' ''File is not a zip file'')\<rparr>"

definition empty_system :: system where
  "empty_system = \<lparr>analysis_tasks = Map.empty, temp_files = Map.empty, background = Map.empty\<rparr>"

definition demo_submitted :: system where
  "demo_submitted =
     snd (analyze_war_file ''t1'' ''2024-05-01T10:00:00'' None ''demo.war'' demo_archive empty_system)"

definition demo_at_80 :: system where
  "demo_at_80 =
     resume ''-'' ''-'' False ''t1'' (resume ''-'' ''-'' False ''t1''
       (resume ''-'' ''-'' False ''t1'' (resume ''-'' ''-'' False ''t1'' demo_submitted)))"

definition demo_finished :: system where
  "demo_finished = resume ''2024-05-01T10:00:03'' ''2024-05-01T10:00:04'' False ''t1'' demo_at_80"

text \<open>
  The submission of the archive that does not open, an archive on which the library
  raises an exception without a message, its submission, and an upload of exactly
  100 MiB.
\<close>

definition failing_submitted :: system where
  "failing_submitted =
     snd (analyze_war_file ''t2'' ''2024-05-01T12:00:00'' None ''broken.war'' corrupt_archive
            empty_system)"

definition silent_archive :: file_content where
  "silent_archive = \<lparr>content_length = 10, zip_namelist = Inl (Raised ''MemoryError'' [])\<rparr>"

definition silent_submitted :: system where
  "silent_submitted =
     snd (analyze_war_file ''t3'' ''2024-05-01T13:00:00'' None ''big.war'' silent_archive
            empty_system)"

definition exact_limit_upload :: file_content where
  "exact_limit_upload = \<lparr>content_length = 104857600, zip_namelist = Inr []\<rparr>"

text \<open>
  The archive of the end-to-end scenario: 200 compiled units and the library entry
  \<open>spring-core-5.3.2.jar\<close>.
\<close>

definition scenario_entries :: "string list" where
  "scenario_entries =
     map (\<lambda>i. ''WEB-INF/classes/C'' @ str_nat i @ ''.class'') [0..<200] @
     [''spring-core-5.3.2.jar'']"

definition scenario_archive :: file_content where
  "scenario_archive = \<lparr>content_length = 500000, zip_namelist = Inr scenario_entries\<rparr>"

section \<open>Shared lemmas\<close>

lemma foldl_append_single: "foldl (\<lambda>acc i. acc @ [f i]) acc xs = acc @ map f xs"
  by (induction xs arbitrary: acc) simp_all

lemma str_nat_digit: "n < 10 \<Longrightarrow> str_nat n = [digit_char n]"
  by (subst str_nat.simps) simp

lemma str_nat_Suc_0: "str_nat (Suc 0) = ''1''"
  by (simp add: str_nat_digit digit_char_def)

lemma str_nat_3: "str_nat 3 = ''3''"
  by (simp add: str_nat_digit digit_char_def)

lemma analyze_sql_patterns_map:
  "analyze_sql_patterns si = map sql_pattern_at [0..<min 10 (max 1 (total_classes si div 10))]"
  unfolding analyze_sql_patterns_def Let_def foldl_append_single by simp

lemma append_controllers_map:
  "append_controllers k acc = acc @ map (spec_descriptor ''Controller'' ''com.nbs.web'') [0..<k]"
  unfolding append_controllers_def foldl_append_single by (simp add: spec_descriptor_def)

lemma append_services_map:
  "append_services k acc = acc @ map (spec_descriptor ''Service'' ''com.nbs.service'') [0..<k]"
  unfolding append_services_def foldl_append_single by (simp add: spec_descriptor_def)

lemma append_repositories_map:
  "append_repositories k acc = acc @ map (spec_descriptor ''Repository'' ''com.nbs.dao'') [0..<k]"
  unfolding append_repositories_def foldl_append_single by (simp add: spec_descriptor_def)

subsection \<open>The version search\<close>

lemma dot_not_digit: "\<not> is_digit CHR ''.''"
  by (simp add: is_digit_def)

lemma prefix_dot_iff: "prefix ''.'' r \<longleftrightarrow> (\<exists>t. r = CHR ''.'' # t)"
  by (cases r) auto

lemma takeWhile_digits_dot:
  "list_all is_digit a \<Longrightarrow> takeWhile is_digit (a @ CHR ''.'' # t) = a"
  by (induction a) (simp_all add: dot_not_digit)

lemma dropWhile_digits_dot:
  "list_all is_digit a \<Longrightarrow> dropWhile is_digit (a @ CHR ''.'' # t) = CHR ''.'' # t"
  by (induction a) (simp_all add: dot_not_digit)

lemma match_version_sound:
  assumes "match_version s = Some v"
  shows "version_token v \<and> prefix v s"
proof -
  define d1 where "d1 = takeWhile is_digit s"
  define r1 where "r1 = dropWhile is_digit s"
  define d2 where "d2 = takeWhile is_digit (tl r1)"
  define r2 where "r2 = dropWhile is_digit (tl r1)"
  define d3 where "d3 = takeWhile is_digit (tl r2)"
  from assms have c: "d1 \<noteq> []" "prefix ''.'' r1" "d2 \<noteq> []" "prefix ''.'' r2" "d3 \<noteq> []"
    and v: "v = d1 @ ''.'' @ d2 @ ''.'' @ d3"
    unfolding match_version_def Let_def d1_def r1_def d2_def r2_def d3_def
    by (auto split: if_splits)
  have s1: "s = d1 @ r1" by (simp add: d1_def r1_def)
  from c(2) obtain t1 where t1: "r1 = CHR ''.'' # t1" by (auto simp: prefix_dot_iff)
  have s2: "t1 = d2 @ r2" using t1 by (simp add: d2_def r2_def)
  from c(4) obtain t2 where t2: "r2 = CHR ''.'' # t2" by (auto simp: prefix_dot_iff)
  have s3: "t2 = d3 @ dropWhile is_digit t2" using t2 by (simp add: d3_def)
  have "s = v @ dropWhile is_digit t2"
    using s1 t1 s2 t2 s3 v by simp
  then have "prefix v s" by (metis prefixI)
  moreover have "list_all is_digit d1" "list_all is_digit d2" "list_all is_digit d3"
    unfolding d1_def d2_def d3_def list_all_iff by (auto dest: set_takeWhileD)
  then have "version_token v"
    unfolding version_token_def using c v by blast
  ultimately show ?thesis by simp
qed

lemma match_version_complete:
  assumes "version_token v"
  shows "\<exists>w. match_version (v @ ss) = Some w \<and> prefix v w"
proof -
  from assms obtain a b c where v: "v = a @ ''.'' @ b @ ''.'' @ c"
    and ne: "a \<noteq> []" "b \<noteq> []" "c \<noteq> []"
    and dg: "list_all is_digit a" "list_all is_digit b" "list_all is_digit c"
    unfolding version_token_def by blast
  have e: "v @ ss = a @ CHR ''.'' # (b @ CHR ''.'' # (c @ ss))" using v by simp
  have tc: "takeWhile is_digit (c @ ss) = c @ takeWhile is_digit ss"
    using dg(3) by (simp add: takeWhile_append2 list_all_iff)
  have "match_version (v @ ss) = Some (a @ ''.'' @ b @ ''.'' @ c @ takeWhile is_digit ss)"
    unfolding match_version_def e Let_def
    using ne dg by (simp add: takeWhile_digits_dot dropWhile_digits_dot tc)
  then show ?thesis using v by simp
qed

lemma re_search_version_sound:
  "re_search_version s = Some v \<Longrightarrow> version_token v \<and> sublist v s"
proof (induction s)
  case Nil
  then show ?case by simp
next
  case (Cons c cs)
  show ?case
  proof (cases "match_version (c # cs)")
    case None
    with Cons show ?thesis by (auto simp: sublist_Cons_right)
  next
    case (Some w)
    with Cons.prems have "w = v" by simp
    with Some match_version_sound[of "c # cs" v] show ?thesis
      by (auto intro: prefix_imp_sublist)
  qed
qed

lemma re_search_version_complete:
  "version_token v \<Longrightarrow> re_search_version (ps @ v @ ss) \<noteq> None"
proof (induction ps)
  case Nil
  from Nil have "v \<noteq> []" by (auto simp: version_token_def)
  then obtain c cs where vc: "v @ ss = c # cs" by (cases v) auto
  from match_version_complete[OF Nil, of ss] obtain w where "match_version (v @ ss) = Some w" by blast
  then show ?case using vc by simp
next
  case (Cons p ps)
  then show ?case by (simp split: option.splits)
qed

lemma re_search_version_None_iff:
  "re_search_version s = None \<longleftrightarrow> \<not> has_version_token s"
proof
  assume "re_search_version s = None"
  then show "\<not> has_version_token s"
    unfolding has_version_token_def sublist_def
    using re_search_version_complete by force
next
  assume n: "\<not> has_version_token s"
  show "re_search_version s = None"
  proof (cases "re_search_version s")
    case None then show ?thesis .
  next
    case (Some v)
    with re_search_version_sound[OF Some] n show ?thesis
      by (auto simp: has_version_token_def)
  qed
qed

lemma match_version_longest:
  assumes "match_version s = Some v" and "s = v' @ ss'" and "version_token v'"
  shows "length v' \<le> length v"
proof -
  from match_version_complete[OF assms(3), of ss'] assms(1,2)
  have "prefix v' v" by auto
  then show ?thesis by (rule prefix_length_le)
qed

lemma re_search_version_leftmost:
  "re_search_version s = Some v \<Longrightarrow> leftmost_version_token v s"
proof (induction s)
  case Nil
  then show ?case by simp
next
  case (Cons c cs)
  show ?case
  proof (cases "match_version (c # cs)")
    case (Some w)
    with Cons.prems have wv: "w = v" by simp
    from match_version_sound[OF Some] wv obtain ss where
      tok: "version_token v" and dec: "c # cs = [] @ v @ ss"
      by (auto simp: prefix_def)
    have "\<forall>ps' v' ss'. c # cs = ps' @ v' @ ss' \<and> version_token v' \<longrightarrow>
            length ([]::string) \<le> length ps' \<and>
            (length ps' = length ([]::string) \<longrightarrow> length v' \<le> length v)"
      using match_version_longest[OF Some] wv by auto
    with tok dec show ?thesis
      unfolding leftmost_version_token_def by blast
  next
    case None
    with Cons.prems have "re_search_version cs = Some v" by simp
    from Cons.IH[OF this] obtain ps ss where
      dec: "cs = ps @ v @ ss" and tok: "version_token v" and
      lm: "\<And>ps' v' ss'. cs = ps' @ v' @ ss' \<Longrightarrow> version_token v' \<Longrightarrow>
             length ps \<le> length ps' \<and> (length ps' = length ps \<longrightarrow> length v' \<le> length v)"
      unfolding leftmost_version_token_def by blast
    have "length (c # ps) \<le> length ps' \<and>
          (length ps' = length (c # ps) \<longrightarrow> length v' \<le> length v)"
      if d: "c # cs = ps' @ v' @ ss'" and t: "version_token v'" for ps' v' ss'
    proof (cases ps')
      case Nil
      with d have "c # cs = v' @ ss'" by simp
      with match_version_complete[OF t, of ss'] None show ?thesis by auto
    next
      case (Cons p ps'')
      with d have "cs = ps'' @ v' @ ss'" by simp
      from lm[OF this t] Cons show ?thesis by simp
    qed
    moreover have "c # cs = (c # ps) @ v @ ss" using dec by simp
    ultimately show ?thesis
      unfolding leftmost_version_token_def using tok by blast
  qed
qed

lemma spec_version_skip:
  assumes "\<not> has_version_token j" and "spec_version js r"
  shows "spec_version (j # js) r"
proof (cases r)
  case None
  with assms show ?thesis by (simp add: spec_version_def)
next
  case (Some v)
  with assms(2) obtain ks k ks' where
    d: "js = ks @ k # ks'" and n: "\<not> list_ex has_version_token ks" and
    l: "leftmost_version_token v k"
    unfolding spec_version_def by auto
  have "j # js = (j # ks) @ k # ks'" using d by simp
  moreover have "\<not> list_ex has_version_token (j # ks)" using n assms(1) by simp
  ultimately show ?thesis
    unfolding spec_version_def Some using l by (simp only: option.case) blast
qed

lemma spec_version_here:
  assumes "leftmost_version_token v j"
  shows "spec_version (j # js) (Some v)"
proof -
  have "j # js = [] @ j # js" by simp
  moreover have "\<not> list_ex has_version_token []" by simp
  ultimately show ?thesis
    unfolding spec_version_def using assms by (simp only: option.case) blast
qed

lemma first_version_spec: "spec_version libs (first_version libs)"
proof (induction libs)
  case Nil
  then show ?case by (simp add: spec_version_def)
next
  case (Cons j js)
  show ?case
  proof (cases "re_search_version j")
    case None
    then have "\<not> has_version_token j" by (simp add: re_search_version_None_iff)
    from spec_version_skip[OF this Cons] None show ?thesis by simp
  next
    case (Some v)
    then have "leftmost_version_token v j" by (rule re_search_version_leftmost)
    from spec_version_here[OF this] Some show ?thesis by simp
  qed
qed

subsection \<open>The runner and the invariant\<close>

lemma invD_Some:
  "system_invariant s \<Longrightarrow> analysis_tasks s tid = Some t \<Longrightarrow> task_consistent t (background s tid)"
  unfolding system_invariant_def by blast

lemma invD_None:
  "system_invariant s \<Longrightarrow> analysis_tasks s tid = None \<Longrightarrow> background s tid = None"
  unfolding system_invariant_def by blast

lemma analyze_war_file_accept:
  assumes "suffix ''.war'' filename" and "content_length content \<le> 100 * 1024 * 1024"
  shows "analyze_war_file new_id now None filename content s =
     (Inr (new_id, Text_at 639),
      s\<lparr>temp_files := (temp_files s)(path_join temp_dir (new_id @ ''_'' @ filename) \<mapsto> content),
        analysis_tasks := (analysis_tasks s)(new_id \<mapsto> pending_task new_id now filename),
        background := (background s)(new_id \<mapsto> 0)\<rparr>)"
  using assms by (simp add: analyze_war_file_def pending_task_def)

lemma analyze_war_file_cases:
  assumes "analyze_war_file new_id now open_error filename content s = (response, s')"
  shows "s' = s \<or>
     s' = s\<lparr>temp_files := (temp_files s)(path_join temp_dir (new_id @ ''_'' @ filename) \<mapsto> content),
            analysis_tasks := (analysis_tasks s)(new_id \<mapsto> pending_task new_id now filename),
            background := (background s)(new_id \<mapsto> 0)\<rparr>"
  using assms unfolding analyze_war_file_def
  by (auto split: if_splits option.splits)

lemma pending_task_consistent: "task_consistent (pending_task new_id now filename) (Some 0)"
  by (simp add: task_consistent_def pending_task_def)

lemma submit_preserves:
  assumes "system_invariant s"
    and "analyze_war_file new_id now open_error filename content s = (response, s')"
  shows "system_invariant s'"
proof -
  from analyze_war_file_cases[OF assms(2)] show ?thesis
  proof
    assume "s' = s" with assms(1) show ?thesis by simp
  next
    assume s': "s' = s\<lparr>temp_files := (temp_files s)(path_join temp_dir (new_id @ ''_'' @ filename) \<mapsto> content),
            analysis_tasks := (analysis_tasks s)(new_id \<mapsto> pending_task new_id now filename),
            background := (background s)(new_id \<mapsto> 0)\<rparr>"
    show ?thesis
      unfolding system_invariant_def
    proof (intro allI conjI impI)
      fix tid
      assume "analysis_tasks s' tid = None"
      then have "tid \<noteq> new_id" "analysis_tasks s tid = None" using s' by (auto split: if_splits)
      then show "background s' tid = None" using s' invD_None[OF assms(1)] by simp
    next
      fix tid t
      assume a: "analysis_tasks s' tid = Some t"
      show "task_consistent t (background s' tid)"
      proof (cases "tid = new_id")
        case True
        with s' a have "t = pending_task new_id now filename" "background s' tid = Some 0"
          by simp_all
        then show ?thesis by (simp add: pending_task_consistent)
      next
        case False
        then have "analysis_tasks s tid = Some t" "background s' tid = background s tid"
          using s' a by simp_all
        then show ?thesis using invD_Some[OF assms(1)] by simp
      qed
    qed
  qed
qed

text \<open>What a segment does to the task it runs for, and that it leaves the others alone.\<close>

lemma update_task_other:
  "tid' \<noteq> tid \<Longrightarrow> analysis_tasks (update_task tid f s) tid' = analysis_tasks s tid'"
  by (simp add: update_task_def split: option.splits)

lemma update_task_same:
  "analysis_tasks s tid = Some t \<Longrightarrow> analysis_tasks (update_task tid f s) tid = Some (f t)"
  by (simp add: update_task_def)

lemma update_task_background [simp]: "background (update_task tid f s) = background s"
  by (simp add: update_task_def split: option.splits)

lemma update_task_temp_files [simp]: "temp_files (update_task tid f s) = temp_files s"
  by (simp add: update_task_def split: option.splits)

lemma cleanup_tasks [simp]: "analysis_tasks (cleanup rf p s) = analysis_tasks s"
  by (simp add: cleanup_def)

lemma cleanup_background [simp]: "background (cleanup rf p s) = background s"
  by (simp add: cleanup_def)

lemma runner_finish_background [simp]:
  "background (runner_finish ta te rf tid s) = background s"
  by (simp add: runner_finish_def split: option.splits sum.splits)

lemma runner_finish_other:
  "tid' \<noteq> tid \<Longrightarrow> analysis_tasks (runner_finish ta te rf tid s) tid' = analysis_tasks s tid'"
  by (simp add: runner_finish_def update_task_other split: option.splits sum.splits)

lemma runner_finish_same:
  assumes "analysis_tasks s tid = Some t"
  shows "analysis_tasks (runner_finish ta te rf tid s) tid =
     Some (case analyze_war (temp_files s) ta (file_path t) of
             Inr res \<Rightarrow> t\<lparr>progress := 100, message := Text_at 674, status := ''completed'',
                          end_time := Some te, result := Some res\<rparr>
           | Inl e \<Rightarrow> t\<lparr>status := ''failed'', error := Some (py_str e), end_time := Some te\<rparr>)"
  using assms by (simp add: runner_finish_def update_task_same split: sum.splits)

lemma runner_segment_other:
  assumes "runner_segment k ta te rf tid s = Inr s'" and "tid' \<noteq> tid"
  shows "analysis_tasks s' tid' = analysis_tasks s tid'"
  using assms
  by (auto simp: runner_segment_def runner_begin_def runner_checkpoint_def update_task_other
      runner_finish_other split: if_splits option.splits)

lemma runner_segment_background:
  assumes "runner_segment k ta te rf tid s = Inr s'"
  shows "background s' = background s"
  using assms
  by (auto simp: runner_segment_def runner_begin_def runner_checkpoint_def
      split: if_splits option.splits)

lemma runner_segment_same:
  assumes "runner_segment k ta te rf tid s = Inr s'" and "analysis_tasks s tid = Some t"
  shows "analysis_tasks s' tid = Some
     (if k = 0 then t\<lparr>status := ''processing'', progress := 20, message := Text_at 650\<rparr>
      else if k = 1 then t\<lparr>progress := 40, message := Text_at 655\<rparr>
      else if k = 2 then t\<lparr>progress := 60, message := Text_at 660\<rparr>
      else if k = 3 then t\<lparr>progress := 80, message := Text_at 665\<rparr>
      else (case analyze_war (temp_files s) ta (file_path t) of
             Inr res \<Rightarrow> t\<lparr>progress := 100, message := Text_at 674, status := ''completed'',
                          end_time := Some te, result := Some res\<rparr>
           | Inl e \<Rightarrow> t\<lparr>status := ''failed'', error := Some (py_str e), end_time := Some te\<rparr>))"
  using assms
  by (auto simp: runner_segment_def runner_begin_def runner_checkpoint_def update_task_same
      runner_finish_same split: if_splits)

lemma runner_segment_no_crash:
  assumes "analysis_tasks s tid = Some t"
  shows "runner_segment k ta te rf tid s \<noteq> Inl e"
  using assms by (simp add: runner_segment_def runner_begin_def)

lemma run_preserves:
  assumes inv: "system_invariant s"
    and bg: "background s tid = Some k" and k: "k < 5"
    and seg: "runner_segment k ta te rf tid s = Inr s'"
  shows "system_invariant (s'\<lparr>background := (background s')(tid \<mapsto> Suc k)\<rparr>)"
proof -
  from bg invD_None[OF inv, of tid] obtain t where t: "analysis_tasks s tid = Some t"
    by (cases "analysis_tasks s tid") auto
  from invD_Some[OF inv t] bg have tc: "task_consistent t (Some k)" by simp
  note same = runner_segment_same[OF seg t]
  note bgs = runner_segment_background[OF seg]
  show ?thesis
    unfolding system_invariant_def
  proof (intro allI conjI impI)
    fix tid'
    assume n: "analysis_tasks (s'\<lparr>background := (background s')(tid \<mapsto> Suc k)\<rparr>) tid' = None"
    then have "tid' \<noteq> tid" using same by auto
    with n runner_segment_other[OF seg this] have "analysis_tasks s tid' = None" by simp
    with invD_None[OF inv this] \<open>tid' \<noteq> tid\<close> bgs
    show "background (s'\<lparr>background := (background s')(tid \<mapsto> Suc k)\<rparr>) tid' = None"
      by simp
  next
    fix tid' t'
    assume a: "analysis_tasks (s'\<lparr>background := (background s')(tid \<mapsto> Suc k)\<rparr>) tid' = Some t'"
    show "task_consistent t' (background (s'\<lparr>background := (background s')(tid \<mapsto> Suc k)\<rparr>) tid')"
    proof (cases "tid' = tid")
      case False
      with a runner_segment_other[OF seg False] have "analysis_tasks s tid' = Some t'" by simp
      from invD_Some[OF inv this] False bgs show ?thesis by simp
    next
      case True
      with a same have t': "t' = (if k = 0 then t\<lparr>status := ''processing'', progress := 20, message := Text_at 650\<rparr>
      else if k = 1 then t\<lparr>progress := 40, message := Text_at 655\<rparr>
      else if k = 2 then t\<lparr>progress := 60, message := Text_at 660\<rparr>
      else if k = 3 then t\<lparr>progress := 80, message := Text_at 665\<rparr>
      else (case analyze_war (temp_files s) ta (file_path t) of
             Inr res \<Rightarrow> t\<lparr>progress := 100, message := Text_at 674, status := ''completed'',
                          end_time := Some te, result := Some res\<rparr>
           | Inl e \<Rightarrow> t\<lparr>status := ''failed'', error := Some (py_str e), end_time := Some te\<rparr>))"
        by simp
      from k consider "k = 0" | "k = 1" | "k = 2" | "k = 3" | "k = 4" by linarith
      then have "task_consistent t' (Some (Suc k))"
      proof cases
        case 1 with tc t' show ?thesis by (simp add: task_consistent_def)
      next
        case 2 with tc t' show ?thesis by (simp add: task_consistent_def)
      next
        case 3 with tc t' show ?thesis by (simp add: task_consistent_def)
      next
        case 4 with tc t' show ?thesis by (simp add: task_consistent_def)
      next
        case 5 with tc t' show ?thesis
          by (cases "analyze_war (temp_files s) ta (file_path t)")
             (simp_all add: task_consistent_def)
      qed
      with True show ?thesis by simp
    qed
  qed
qed

lemma step_preserves:
  assumes "step s s'" and "system_invariant s"
  shows "system_invariant s'"
  using assms
proof (induction rule: step.induct)
  case (submit new_id s now open_error filename content response s')
  then show ?case by (auto intro: submit_preserves)
next
  case (poll tid s response)
  then show ?case by simp
next
  case (run s tid k t_analysis t_end remove_fails s')
  then show ?case by (auto intro: run_preserves)
next
  case (crash s tid k t_analysis t_end remove_fails e)
  from crash(1) invD_None[OF crash(4), of tid] obtain t where "analysis_tasks s tid = Some t"
    by (cases "analysis_tasks s tid") auto
  from runner_segment_no_crash[OF this] crash(3) show ?case by blast
qed

lemma reachable_invariant: "reachable s \<Longrightarrow> system_invariant s"
proof (induction rule: reachable.induct)
  case (init fs)
  show ?case by (simp add: system_invariant_def)
next
  case (next_state s s')
  then show ?case by (auto intro: step_preserves)
qed

lemma task_consistent_running:
  assumes "task_consistent t (Some k)" and "k < 5"
  shows "status t \<noteq> ''completed'' \<and> status t \<noteq> ''failed'' \<and> progress t = 20 * k \<and>
         result t = None \<and> error t = None"
  using assms unfolding task_consistent_def by auto

lemma step_task:
  assumes inv: "system_invariant s" and st: "step s s'" and t: "analysis_tasks s tid = Some t"
  shows "\<exists>t'. analysis_tasks s' tid = Some t' \<and> progress t \<le> progress t' \<and>
           (status t' = ''failed'' \<longrightarrow> progress t' = progress t) \<and>
           (status t = ''completed'' \<or> status t = ''failed'' \<longrightarrow> t' = t)"
  using st inv t
proof (induction rule: step.induct)
  case (submit new_id s now open_error filename content response s')
  from submit(1,4) have "tid \<noteq> new_id" by auto
  with analyze_war_file_cases[OF submit(2)] submit(4)
  have "analysis_tasks s' tid = Some t" by auto
  then show ?case by simp
next
  case (poll tid' s response)
  then show ?case by simp
next
  case (run s tid0 k ta te rf s')
  show ?case
  proof (cases "tid = tid0")
    case False
    from runner_segment_other[OF run(3) False] run(5)
    show ?thesis by simp
  next
    case True
    with run(1,5) invD_Some[OF run(4), of tid t] have tc: "task_consistent t (Some k)" by simp
    note r = task_consistent_running[OF tc run(2)]
    note same = runner_segment_same[OF run(3) run(5)[unfolded True]]
    from run(2) consider "k = 0" | "k = 1" | "k = 2" | "k = 3" | "k = 4" by linarith
    then show ?thesis
    proof cases
      case 1 with same r True show ?thesis by simp
    next
      case 2 with same r True show ?thesis by simp
    next
      case 3 with same r True show ?thesis by simp
    next
      case 4 with same r True show ?thesis by simp
    next
      case 5 with same r True show ?thesis
        by (cases "analyze_war (temp_files s) ta (file_path t)") simp_all
    qed
  qed
next
  case (crash s tid0 k ta te rf e)
  then show ?case by simp
qed

lemma step_new_task:
  assumes inv: "system_invariant s" and st: "step s s'"
    and n: "analysis_tasks s tid = None" and t': "analysis_tasks s' tid = Some t'"
  shows "progress t' = 0 \<and> status t' = ''pending''"
  using st inv n t'
proof (induction rule: step.induct)
  case (submit new_id s now open_error filename content response s')
  from analyze_war_file_cases[OF submit(2)] submit(4,5)
  have "t' = pending_task new_id now filename"
    by (auto split: if_splits)
  then show ?case by (simp add: pending_task_def)
next
  case (poll tid' s response)
  then show ?case by simp
next
  case (run s tid0 k ta te rf s')
  from run(1) invD_None[OF run(4), of tid0] have "analysis_tasks s tid0 \<noteq> None" by auto
  with run(5) have "tid \<noteq> tid0" by auto
  from runner_segment_other[OF run(3) this] run(5,6) show ?case by simp
next
  case (crash s tid0 k ta te rf e)
  then show ?case by simp
qed

lemma steps_reachable: "step\<^sup>*\<^sup>* s s' \<Longrightarrow> reachable s \<Longrightarrow> reachable s'"
  by (induction rule: rtranclp_induct) (auto intro: reachable.next_state)

lemma steps_progress:
  assumes "step\<^sup>*\<^sup>* s s'" and "reachable s" and "analysis_tasks s tid = Some t"
  shows "\<exists>t'. analysis_tasks s' tid = Some t' \<and> progress t \<le> progress t' \<and>
           (status t = ''completed'' \<or> status t = ''failed'' \<longrightarrow> t' = t)"
  using assms
proof (induction rule: rtranclp_induct)
  case base
  then show ?case by simp
next
  case (step y z)
  from step(3)[OF step(4,5)] obtain u where
    u: "analysis_tasks y tid = Some u" "progress t \<le> progress u"
       "status t = ''completed'' \<or> status t = ''failed'' \<longrightarrow> u = t" by blast
  have "system_invariant y"
    using steps_reachable[OF step(1,4)] by (rule reachable_invariant)
  from step_task[OF this step(2) u(1)] obtain v where
    v: "analysis_tasks z tid = Some v" "progress u \<le> progress v"
       "status u = ''completed'' \<or> status u = ''failed'' \<longrightarrow> v = u" by blast
  from u v show ?case by auto
qed

lemma resume_step: "step s (resume ta te rf tid s)"
proof (cases "background s tid")
  case None
  then have "resume ta te rf tid s = s" by (simp add: resume_def)
  then show ?thesis using step.poll[of tid s] by simp
next
  case (Some k)
  show ?thesis
  proof (cases "k < 5")
    case False
    with Some have "resume ta te rf tid s = s" by (simp add: resume_def)
    then show ?thesis using step.poll[of tid s] by simp
  next
    case True
    show ?thesis
    proof (cases "runner_segment k ta te rf tid s")
      case (Inl e)
      with Some True show ?thesis by (simp add: resume_def step.crash)
    next
      case (Inr s')
      with Some True show ?thesis by (simp add: resume_def step.run)
    qed
  qed
qed

lemma reachable_resume: "reachable s \<Longrightarrow> reachable (resume ta te rf tid s)"
  by (blast intro: reachable.next_state resume_step)

lemma reachable_empty: "reachable empty_system"
  unfolding empty_system_def by (rule reachable.init)

lemma reachable_demo_submitted: "reachable demo_submitted"
proof -
  have "step empty_system demo_submitted"
    unfolding demo_submitted_def
    by (rule step.submit[OF _ surjective_pairing]) (simp add: empty_system_def)
  with reachable_empty show ?thesis by (rule reachable.next_state)
qed

lemma reachable_demo_at_80: "reachable demo_at_80"
  unfolding demo_at_80_def by (intro reachable_resume reachable_demo_submitted)

lemma reachable_demo_finished: "reachable demo_finished"
  unfolding demo_finished_def by (intro reachable_resume reachable_demo_at_80)

lemma demo_submitted_eq:
  "demo_submitted =
     \<lparr>analysis_tasks = [''t1'' \<mapsto> pending_task ''t1'' ''2024-05-01T10:00:00'' ''demo.war''],
      temp_files = [''/tmp/t1_demo.war'' \<mapsto> demo_archive],
      background = [''t1'' \<mapsto> 0]\<rparr>"
  unfolding demo_submitted_def
  by (simp add: analyze_war_file_accept suffix_to_prefix demo_archive_def empty_system_def
      path_join_def temp_dir_def)

lemma demo_at_80_task:
  "analysis_tasks demo_at_80 ''t1'' =
     Some ((pending_task ''t1'' ''2024-05-01T10:00:00'' ''demo.war'')
            \<lparr>status := ''processing'', progress := 80, message := Text_at 665\<rparr>)"
  unfolding demo_at_80_def demo_submitted_eq
  by (simp add: resume_def runner_segment_def runner_begin_def runner_checkpoint_def
      update_task_def)

subsection \<open>The pipeline and the concrete runs\<close>

lemma analyze_war_Inr:
  assumes "fs p = Some c" and "zip_namelist c = Inr l"
  shows "\<exists>res. analyze_war fs now p = Inr res"
  using assms by (simp add: analyze_war_def analyze_war_structure_def Let_def)

lemma analyze_war_missing:
  "fs p = None \<Longrightarrow> analyze_war fs now p = Inl (FileNotFoundError p)"
  by (simp add: analyze_war_def analyze_war_structure_def)

lemma analyze_war_unreadable:
  "fs p = Some c \<Longrightarrow> zip_namelist c = Inl e \<Longrightarrow> analyze_war fs now p = Inl e"
  by (simp add: analyze_war_def analyze_war_structure_def)

lemma demo_at_80_files: "temp_files demo_at_80 = [''/tmp/t1_demo.war'' \<mapsto> demo_archive]"
  unfolding demo_at_80_def demo_submitted_eq
  by (simp add: resume_def runner_segment_def runner_begin_def runner_checkpoint_def
      update_task_def)

lemma demo_at_80_background: "background demo_at_80 ''t1'' = Some 4"
  unfolding demo_at_80_def demo_submitted_eq
  by (simp add: resume_def runner_segment_def runner_begin_def runner_checkpoint_def
      update_task_def)

lemma demo_path: "file_path (pending_task ''t1'' now ''demo.war'') = ''/tmp/t1_demo.war''"
  by (simp add: pending_task_def path_join_def temp_dir_def suffix_to_prefix)

lemma resume_last:
  assumes "background s tid = Some 4"
  shows "analysis_tasks (resume ta te rf tid s) = analysis_tasks (runner_finish ta te rf tid s)"
  using assms by (simp add: resume_def runner_segment_def)

lemma demo_finished_task:
  "\<exists>res. analysis_tasks demo_finished ''t1'' =
     Some ((pending_task ''t1'' ''2024-05-01T10:00:00'' ''demo.war'')
            \<lparr>status := ''completed'', progress := 100, message := Text_at 674,
             end_time := Some ''2024-05-01T10:00:04'', result := Some res\<rparr>)"
proof -
  let ?t = "(pending_task ''t1'' ''2024-05-01T10:00:00'' ''demo.war'')
            \<lparr>status := ''processing'', progress := 80, message := Text_at 665\<rparr>"
  have fp: "file_path ?t = ''/tmp/t1_demo.war''" by (simp add: demo_path)
  obtain res where
    r: "analyze_war (temp_files demo_at_80) ''2024-05-01T10:00:03'' (file_path ?t) = Inr res"
    unfolding fp
    using analyze_war_Inr[of "temp_files demo_at_80" "''/tmp/t1_demo.war''" demo_archive]
    by (auto simp: demo_at_80_files demo_archive_def)
  have "analysis_tasks demo_finished ''t1'' =
      analysis_tasks (runner_finish ''2024-05-01T10:00:03'' ''2024-05-01T10:00:04'' False ''t1''
        demo_at_80) ''t1''"
    unfolding demo_finished_def by (simp only: resume_last[OF demo_at_80_background])
  also have "\<dots> = Some (?t\<lparr>progress := 100, message := Text_at 674, status := ''completed'',
                          end_time := Some ''2024-05-01T10:00:04'', result := Some res\<rparr>)"
    unfolding runner_finish_same[OF demo_at_80_task] r by simp
  finally show ?thesis by (intro exI[of _ res]) (simp add: pending_task_def)
qed

lemma analyze_war_structure_name:
  assumes "analyze_war_structure fs p = Inr si"
  shows "file_name si = basename p"
  using assms
  by (auto simp: analyze_war_structure_def Let_def split: option.splits sum.splits)

lemma analyze_war_project_name:
  assumes "analyze_war fs now p = Inr r"
  shows "file_name (war_info r) = basename p \<and>
         project_name r = str_remove_all ''.war'' (basename p)"
proof -
  from assms obtain si where si: "analyze_war_structure fs p = Inr si"
    by (cases "analyze_war_structure fs p") (simp_all add: analyze_war_def)
  with assms have "war_info r = si" "project_name r = str_remove_all ''.war'' (file_name si)"
    by (auto simp: analyze_war_def Let_def)
  with analyze_war_structure_name[OF si] show ?thesis by simp
qed

lemma basename_demo: "basename ''/tmp/t1_my.warehouse.war'' = ''t1_my.warehouse.war''"
  by (simp add: basename_def)

lemma remove_demo: "str_remove_all ''.war'' ''t1_my.warehouse.war'' = ''t1_myehouse''"
  by code_simp

lemma perform_analysis_eq:
  assumes "analysis_tasks s tid = Some t"
  shows "perform_analysis ta te rf tid s =
     Inr (runner_finish ta te rf tid
            (s\<lparr>analysis_tasks := (analysis_tasks s)(tid \<mapsto>
                 t\<lparr>status := ''processing'', progress := 80, message := Text_at 665\<rparr>)\<rparr>))"
  using assms
  by (simp add: perform_analysis_def runner_begin_def runner_checkpoint_def update_task_def)

lemma runner_finish_files:
  assumes "analysis_tasks s tid = Some t"
  shows "temp_files (runner_finish ta te rf tid s) =
     (if rf then temp_files s else (temp_files s)(file_path t := None))"
  using assms
  by (auto simp: runner_finish_def cleanup_def update_task_def split: sum.splits)

lemma runner_finish_tasks_remove:
  "analysis_tasks (runner_finish ta te rf tid s) = analysis_tasks (runner_finish ta te rf' tid s)"
  by (simp add: runner_finish_def split: option.splits)

lemma failing_submitted_eq:
  "failing_submitted =
     \<lparr>analysis_tasks = [''t2'' \<mapsto> pending_task ''t2'' ''2024-05-01T12:00:00'' ''broken.war''],
      temp_files = [''/tmp/t2_broken.war'' \<mapsto> corrupt_archive],
      background = [''t2'' \<mapsto> 0]\<rparr>"
  unfolding failing_submitted_def
  by (simp add: analyze_war_file_accept suffix_to_prefix corrupt_archive_def empty_system_def
      path_join_def temp_dir_def)

lemma silent_submitted_eq:
  "silent_submitted =
     \<lparr>analysis_tasks = [''t3'' \<mapsto> pending_task ''t3'' ''2024-05-01T13:00:00'' ''big.war''],
      temp_files = [''/tmp/t3_big.war'' \<mapsto> silent_archive],
      background = [''t3'' \<mapsto> 0]\<rparr>"
  unfolding silent_submitted_def
  by (simp add: analyze_war_file_accept suffix_to_prefix silent_archive_def empty_system_def
      path_join_def temp_dir_def)

lemma pending_task_path:
  "file_path (pending_task tid now filename) = path_join temp_dir (tid @ ''_'' @ filename)"
  by (simp add: pending_task_def)

subsection \<open>The inspector\<close>

lemma sublist_map_iff:
  "sublist ys (map f xs) \<longleftrightarrow> (\<exists>g. sublist g xs \<and> map f g = ys)"
proof
  assume "sublist ys (map f xs)"
  from sublist_map_rightE[OF this] obtain g where "sublist g xs" "ys = map f g" by blast
  then have "sublist g xs \<and> map f g = ys" by simp
  then show "\<exists>g. sublist g xs \<and> map f g = ys" ..
next
  assume "\<exists>g. sublist g xs \<and> map f g = ys"
  then obtain g where g: "sublist g xs" and m: "map f g = ys" by blast
  from map_mono_sublist[OF g, of f] m show "sublist ys (map f xs)" by simp
qed

lemma lower_spring: "lower ''spring'' = ''spring''"
  by (simp add: lower_def lower_char_def)

lemma is_spring_jar_spec: "is_spring_jar f = spec_library_entry f"
  unfolding is_spring_jar_def spec_library_entry_def contains_ignoring_case_def lower_spring
  by (simp only: lower_def sublist_map_iff)

lemma spring_core_is_library: "is_spring_jar ''spring-core-5.3.2.jar''"
  unfolding is_spring_jar_def by code_simp

lemma spring_core_version: "first_version [''spring-core-5.3.2.jar''] = Some ''5.3.2''"
  by code_simp

lemma filter_spring_jars:
  "filter is_spring_jar fl = filter is_spring_jar (filter (suffix ''.jar'') fl)"
  by (induction fl) (auto simp: is_spring_jar_def)

lemma analyze_war_structure_Inr:
  assumes "fs p = Some content" and "zip_namelist content = Inr file_list"
  shows "analyze_war_structure fs p =
     Inr \<lparr>file_name = basename p, file_size_bytes = content_length content,
          web_inf_found = list_ex (sublist ''WEB-INF'') file_list,
          spring_detected = (filter is_spring_jar file_list \<noteq> []),
          spring_version = first_version (filter is_spring_jar file_list),
          total_classes = length (filter (suffix ''.class'') file_list),
          total_jars = length (filter (suffix ''.jar'') file_list),
          jar_files = take 5 (filter is_spring_jar file_list)\<rparr>"
  using assms by (simp add: analyze_war_structure_def Let_def)

lemma class_entries_classes:
  "filter (suffix ''.class'') (map (\<lambda>i. a @ str_nat i @ ''.class'') xs) =
     map (\<lambda>i. a @ str_nat i @ ''.class'') xs"
proof -
  have "suffix ''.class'' (a @ str_nat i @ ''.class'')" for i
    by (rule suffixI[of _ "a @ str_nat i"]) simp
  then show ?thesis by (induction xs) simp_all
qed

lemma class_entries_jars:
  "filter (suffix ''.jar'') (map (\<lambda>i. a @ str_nat i @ ''.class'') xs) = []"
  by (induction xs) (simp_all add: suffix_to_prefix)

lemma scenario_classes: "length (filter (suffix ''.class'') scenario_entries) = 200"
  unfolding scenario_entries_def filter_append class_entries_classes
  by (simp add: suffix_to_prefix)

lemma scenario_jars: "filter (suffix ''.jar'') scenario_entries = [''spring-core-5.3.2.jar'']"
  unfolding scenario_entries_def filter_append class_entries_jars
  by (simp add: suffix_to_prefix)

section \<open>The estimators\<close>

text \<open>
  C6.  For all structure facts with \<open>n\<close> compiled units, \<open>analyze_spring_components\<close>
  returns the role counts \<open>max 1 (n div 20)\<close>, \<open>max 1 (n div 15)\<close> and
  \<open>max 1 (n div 25)\<close>, which is 1, 1 and 1 for \<open>n = 0\<close>, and the descriptor list is
  the first ten of all controllers, then all services, then all repositories, each
  named by its role and one-based index and flagged as estimated.
\<close>

theorem estimate_components_counts:
  "controllers (analyze_spring_components si) = max 1 (total_classes si div 20) \<and>
   services (analyze_spring_components si) = max 1 (total_classes si div 15) \<and>
   repositories (analyze_spring_components si) = max 1 (total_classes si div 25) \<and>
   components (analyze_spring_components si) =
     spec_descriptors (max 1 (total_classes si div 20)) (max 1 (total_classes si div 15))
       (max 1 (total_classes si div 25)) \<and>
   controllers (analyze_spring_components (si\<lparr>total_classes := 0\<rparr>)) = 1 \<and>
   services (analyze_spring_components (si\<lparr>total_classes := 0\<rparr>)) = 1 \<and>
   repositories (analyze_spring_components (si\<lparr>total_classes := 0\<rparr>)) = 1"
proof -
  have eq: "analyze_spring_components x =
      \<lparr>total_components = length (map (spec_descriptor ''Controller'' ''com.nbs.web'') [0..<max 1 (total_classes x div 20)] @
              map (spec_descriptor ''Service'' ''com.nbs.service'') [0..<max 1 (total_classes x div 15)] @
              map (spec_descriptor ''Repository'' ''com.nbs.dao'') [0..<max 1 (total_classes x div 25)]),
       controllers = max 1 (total_classes x div 20),
       services = max 1 (total_classes x div 15),
       repositories = max 1 (total_classes x div 25),
       components = spec_descriptors (max 1 (total_classes x div 20))
         (max 1 (total_classes x div 15)) (max 1 (total_classes x div 25))\<rparr>" for x
    unfolding analyze_spring_components_def Let_def append_controllers_map
      append_services_map append_repositories_map spec_descriptors_def
    by simp
  show ?thesis unfolding eq by simp
qed

text \<open>
  C7, as the code has it.  For all structure facts with \<open>n\<close> compiled units,
  \<open>analyze_sql_patterns\<close> returns \<open>min 10 (max 1 (n div 10))\<close> findings, one for
  \<open>n = 0\<close>; the finding at index \<open>i\<close> takes its pattern kind and its risk level
  from the two rotations at \<open>i mod 3\<close>, its statement names \<open>table_(i+1)\<close>, and its
  file is \<open>LegacyClass(i+1).java\<close>: the extension of a Java source file, not the
  \<open>.class\<close> extension by which line 96 counts the compiled units.
\<close>

theorem estimate_patterns_rotation:
  "length (analyze_sql_patterns si) = min 10 (max 1 (total_classes si div 10)) \<and>
   length (analyze_sql_patterns (si\<lparr>total_classes := 0\<rparr>)) = 1 \<and>
   (i < length (analyze_sql_patterns si) \<longrightarrow>
      pattern_type (analyze_sql_patterns si ! i) =
        [''executeSQL'', ''createStatement().execute'', ''prepareStatement''] ! (i mod 3) \<and>
      risk_level (analyze_sql_patterns si ! i) = [''HIGH'', ''CRITICAL'', ''MEDIUM''] ! (i mod 3) \<and>
      pattern_file (analyze_sql_patterns si ! i) = ''LegacyClass'' @ str_nat (i + 1) @ ''.java'' \<and>
      sql_statement (analyze_sql_patterns si ! i) =
        ''SELECT * FROM table_'' @ str_nat (i + 1) @ '' WHERE id = ?'')"
proof -
  have len: "length (analyze_sql_patterns x) = min 10 (max 1 (total_classes x div 10))" for x
    by (simp add: analyze_sql_patterns_map)
  have at: "analyze_sql_patterns si ! i = sql_pattern_at i" if "i < length (analyze_sql_patterns si)"
    using that unfolding analyze_sql_patterns_map by simp
  show ?thesis
    using len at by (simp add: sql_pattern_at_def pattern_types_def risk_levels_def)
qed

theorem estimate_patterns_rotation_witness:
  "length (analyze_sql_patterns facts35) = 3 \<and>
   pattern_type (analyze_sql_patterns facts35 ! 2) = ''prepareStatement'' \<and>
   risk_level (analyze_sql_patterns facts35 ! 2) = ''MEDIUM'' \<and>
   pattern_file (analyze_sql_patterns facts35 ! 2) = ''LegacyClass3.java'' \<and>
   sql_statement (analyze_sql_patterns facts35 ! 2) = ''SELECT * FROM table_3 WHERE id = ?''"
proof -
  have l: "length (analyze_sql_patterns facts35) = 3"
    using estimate_patterns_rotation [of facts35 2] by (simp add: facts35_def)
  then have "(2::nat) < length (analyze_sql_patterns facts35)" by simp
  with estimate_patterns_rotation [of facts35 2] l show ?thesis
    by (simp add: str_nat_3)
qed

text \<open>
  C7 as stated fails: the file of a finding does not carry the extension of a compiled
  unit.
\<close>

theorem pattern_file_extension_counterexample:
  "pattern_file (analyze_sql_patterns facts35 ! 0) = ''LegacyClass1.java'' \<and>
   \<not> suffix ''.class'' (pattern_file (analyze_sql_patterns facts35 ! 0))"
proof -
  have "analyze_sql_patterns facts35 ! 0 = sql_pattern_at 0"
    unfolding analyze_sql_patterns_map by (simp add: facts35_def)
  then show ?thesis
    by (simp add: sql_pattern_at_def str_nat_Suc_0 suffix_to_prefix)
qed

section \<open>The task lifecycle\<close>

text \<open>
  C2.  For every task of a reachable state, \<open>result\<close> is present exactly when the
  status is \<open>completed\<close> and \<open>error\<close> exactly when it is \<open>failed\<close>; never
  both, and in a terminal state one of them; before a terminal state neither is
  present, and the status endpoint returns both as they are stored, so as absent.
\<close>

theorem result_error_exclusive:
  assumes "reachable s" and "analysis_tasks s tid = Some t"
  shows "status t \<in> {''pending'', ''processing'', ''completed'', ''failed''} \<and>
         (result t \<noteq> None \<longleftrightarrow> status t = ''completed'') \<and>
         (error t \<noteq> None \<longleftrightarrow> status t = ''failed'') \<and>
         \<not> (result t \<noteq> None \<and> error t \<noteq> None) \<and>
         (status t = ''completed'' \<or> status t = ''failed'' \<longrightarrow>
            result t \<noteq> None \<or> error t \<noteq> None) \<and>
         (status t = ''pending'' \<or> status t = ''processing'' \<longrightarrow>
            result t = None \<and> error t = None) \<and>
         (\<exists>r. get_analysis_status tid s = Inr r \<and> resp_status r = status t \<and>
            resp_result r = result t \<and> resp_error r = error t)"
proof -
  from assms have tc: "task_consistent t (background s tid)"
    by (auto dest: reachable_invariant invD_Some)
  have "get_analysis_status tid s =
      Inr \<lparr>resp_task_id = task_id t, resp_status = status t, resp_progress = progress t,
           resp_message = message t, resp_result = result t, resp_error = error t\<rparr>"
    using assms(2) by (simp add: get_analysis_status_def)
  then have "\<exists>r. get_analysis_status tid s = Inr r \<and> resp_status r = status t \<and>
            resp_result r = result t \<and> resp_error r = error t" by simp
  moreover from tc have "status t \<in> {''pending'', ''processing'', ''completed'', ''failed''} \<and>
         (result t \<noteq> None \<longleftrightarrow> status t = ''completed'') \<and>
         (error t \<noteq> None \<longleftrightarrow> status t = ''failed'') \<and>
         \<not> (result t \<noteq> None \<and> error t \<noteq> None) \<and>
         (status t = ''completed'' \<or> status t = ''failed'' \<longrightarrow>
            result t \<noteq> None \<or> error t \<noteq> None) \<and>
         (status t = ''pending'' \<or> status t = ''processing'' \<longrightarrow>
            result t = None \<and> error t = None)"
    unfolding task_consistent_def by auto
  ultimately show ?thesis by blast
qed

theorem result_error_exclusive_witness:
  "\<exists>t r. analysis_tasks demo_finished ''t1'' = Some t \<and> status t = ''completed'' \<and>
     result t \<noteq> None \<and> error t = None \<and>
     get_analysis_status ''t1'' demo_finished = Inr r \<and> resp_status r = ''completed'' \<and>
     resp_result r = result t \<and> resp_error r = None"
proof -
  from demo_finished_task obtain t where
    t: "analysis_tasks demo_finished ''t1'' = Some t" and c: "status t = ''completed''"
    by auto
  from result_error_exclusive [OF reachable_demo_finished t] c
  show ?thesis using t by auto
qed

text \<open>
  C3.  In a reachable state a task is created with progress 0; a completed task has
  progress 100; no step of the process lowers the progress of a task, and the step
  that makes a task fail leaves its progress at the checkpoint reached before; over
  any number of steps the progress does not decrease, and a terminal task does not
  change at all.
\<close>

theorem progress_non_decreasing:
  assumes "reachable s"
  shows "(\<forall>s' t'. step s s' \<and> analysis_tasks s tid = None \<and> analysis_tasks s' tid = Some t' \<longrightarrow>
            progress t' = 0) \<and>
         (\<forall>t. analysis_tasks s tid = Some t \<longrightarrow>
            (status t = ''completed'' \<longrightarrow> progress t = 100) \<and>
            (\<forall>s'. step s s' \<longrightarrow>
               (\<exists>t'. analysis_tasks s' tid = Some t' \<and> progress t \<le> progress t' \<and>
                  (status t' = ''failed'' \<longrightarrow> progress t' = progress t))) \<and>
            (\<forall>s'. step\<^sup>*\<^sup>* s s' \<longrightarrow>
               (\<exists>t'. analysis_tasks s' tid = Some t' \<and> progress t \<le> progress t' \<and>
                  (status t = ''completed'' \<or> status t = ''failed'' \<longrightarrow> t' = t))))"
proof -
  note inv = reachable_invariant[OF assms]
  have a: "progress t' = 0"
    if "step s s'" "analysis_tasks s tid = None" "analysis_tasks s' tid = Some t'" for s' t'
    using step_new_task[OF inv that] by simp
  have b: "status t = ''completed'' \<longrightarrow> progress t = 100"
    if "analysis_tasks s tid = Some t" for t
    using invD_Some[OF inv that] unfolding task_consistent_def by auto
  have c: "\<exists>t'. analysis_tasks s' tid = Some t' \<and> progress t \<le> progress t' \<and>
                  (status t' = ''failed'' \<longrightarrow> progress t' = progress t)"
    if "analysis_tasks s tid = Some t" "step s s'" for t s'
    using step_task[OF inv that(2,1)] by blast
  have d: "\<exists>t'. analysis_tasks s' tid = Some t' \<and> progress t \<le> progress t' \<and>
                  (status t = ''completed'' \<or> status t = ''failed'' \<longrightarrow> t' = t)"
    if "analysis_tasks s tid = Some t" "step\<^sup>*\<^sup>* s s'" for t s'
    using steps_progress[OF that(2) assms that(1)] .
  from a b c d show ?thesis by blast
qed

theorem progress_non_decreasing_witness:
  "\<exists>t t'. analysis_tasks demo_at_80 ''t1'' = Some t \<and> progress t = 80 \<and>
     step demo_at_80 demo_finished \<and>
     analysis_tasks demo_finished ''t1'' = Some t' \<and> status t' = ''completed'' \<and>
     progress t \<le> progress t' \<and> progress t' = 100"
proof -
  have st: "step demo_at_80 demo_finished"
    unfolding demo_finished_def by (rule resume_step)
  from demo_finished_task obtain t' where
    t': "analysis_tasks demo_finished ''t1'' = Some t'" and c: "status t' = ''completed''"
    by auto
  from progress_non_decreasing [OF reachable_demo_at_80, of "''t1''"] demo_at_80_task st
  obtain u where "analysis_tasks demo_finished ''t1'' = Some u"
    "progress ((pending_task ''t1'' ''2024-05-01T10:00:00'' ''demo.war'')
            \<lparr>status := ''processing'', progress := 80, message := Text_at 665\<rparr>) \<le> progress u"
    by blast
  with t' have le: "80 \<le> progress t'" by simp
  from progress_non_decreasing [OF reachable_demo_finished, of "''t1''"] t' c
  have "progress t' = 100" by blast
  with demo_at_80_task st t' c show ?thesis by simp
qed

text \<open>
  C4, as the code has it.  For a registered task the runner ends without raising and never leaves
  the task \<open>processing\<close>: a failure \<open>e\<close> of the pipeline makes the task
  \<open>failed\<close> with the description \<open>str(e)\<close>, which is non-empty when the exception
  carries a message, and with a completion time; a success makes it \<open>completed\<close>.
  In both cases the temporary file is gone afterwards unless its removal fails, and
  whether the removal fails does not change the registry.
\<close>

theorem runner_catches_failures:
  assumes "analysis_tasks s tid = Some t"
  shows "\<exists>s' t'. perform_analysis ta te rf tid s = Inr s' \<and>
           analysis_tasks s' tid = Some t' \<and>
           status t' \<noteq> ''processing'' \<and>
           (\<forall>e. analyze_war (temp_files s) ta (file_path t) = Inl e \<longrightarrow>
              status t' = ''failed'' \<and> error t' = Some (py_str e) \<and> end_time t' = Some te \<and>
              (py_str e \<noteq> [] \<longrightarrow> error t' \<noteq> Some [])) \<and>
           (\<forall>res. analyze_war (temp_files s) ta (file_path t) = Inr res \<longrightarrow>
              status t' = ''completed'' \<and> result t' = Some res \<and> end_time t' = Some te) \<and>
           (\<not> rf \<longrightarrow> temp_files s' (file_path t) = None) \<and>
           (\<exists>s''. perform_analysis ta te (\<not> rf) tid s = Inr s'' \<and>
              analysis_tasks s'' = analysis_tasks s')"
proof -
  let ?t80 = "t\<lparr>status := ''processing'', progress := 80, message := Text_at 665\<rparr>"
  let ?s80 = "s\<lparr>analysis_tasks := (analysis_tasks s)(tid \<mapsto> ?t80)\<rparr>"
  let ?s' = "runner_finish ta te rf tid ?s80"
  let ?t' = "case analyze_war (temp_files s) ta (file_path t) of
             Inr res \<Rightarrow> ?t80\<lparr>progress := 100, message := Text_at 674, status := ''completed'',
                          end_time := Some te, result := Some res\<rparr>
           | Inl e \<Rightarrow> ?t80\<lparr>status := ''failed'', error := Some (py_str e), end_time := Some te\<rparr>"
  have t80: "analysis_tasks ?s80 tid = Some ?t80" by simp
  have run: "perform_analysis ta te rf tid s = Inr ?s'"
    by (rule perform_analysis_eq[OF assms])
  have run': "perform_analysis ta te (\<not> rf) tid s = Inr (runner_finish ta te (\<not> rf) tid ?s80)"
    by (rule perform_analysis_eq[OF assms])
  have same: "analysis_tasks (runner_finish ta te (\<not> rf) tid ?s80) = analysis_tasks ?s'"
    by (rule runner_finish_tasks_remove)
  have task: "analysis_tasks ?s' tid = Some ?t'"
    using runner_finish_same[OF t80, of ta te rf] by simp
  have st: "status ?t' \<noteq> ''processing''"
    by (cases "analyze_war (temp_files s) ta (file_path t)") simp_all
  have fail: "status ?t' = ''failed'' \<and> error ?t' = Some (py_str e) \<and> end_time ?t' = Some te \<and>
              (py_str e \<noteq> [] \<longrightarrow> error ?t' \<noteq> Some [])"
    if "analyze_war (temp_files s) ta (file_path t) = Inl e" for e
    using that by simp
  have ok: "status ?t' = ''completed'' \<and> result ?t' = Some res \<and> end_time ?t' = Some te"
    if "analyze_war (temp_files s) ta (file_path t) = Inr res" for res
    using that by simp
  have rm: "\<not> rf \<longrightarrow> temp_files ?s' (file_path t) = None"
    using runner_finish_files[OF t80, of ta te rf] by (cases rf) simp_all
  from run run' same task st fail ok rm show ?thesis by blast
qed

theorem runner_catches_failures_witness:
  "\<exists>s' t'. perform_analysis ''2024-05-01T12:00:03'' ''2024-05-01T12:00:04'' False ''t2''
             failing_submitted = Inr s' \<and>
     analysis_tasks s' ''t2'' = Some t' \<and> status t' = ''failed'' \<and>
     error t' = Some ''File is not a zip file'' \<and> end_time t' = Some ''2024-05-01T12:00:04'' \<and>
     temp_files s' ''/tmp/t2_broken.war'' = None"
proof -
  let ?t = "pending_task ''t2'' ''2024-05-01T12:00:00'' ''broken.war''"
  have t: "analysis_tasks failing_submitted ''t2'' = Some ?t"
    by (simp add: failing_submitted_eq)
  have p: "file_path ?t = ''/tmp/t2_broken.war''"
    by (simp add: pending_task_path path_join_def temp_dir_def suffix_to_prefix)
  have e: "analyze_war (temp_files failing_submitted) ''2024-05-01T12:00:03'' (file_path ?t) =
      Inl (Raised ''BadZipFile'' ''File is not a zip file'')"
    unfolding p
    by (rule analyze_war_unreadable[of _ _ corrupt_archive])
       (simp_all add: failing_submitted_eq corrupt_archive_def)
  from runner_catches_failures [OF t, of "''2024-05-01T12:00:03''" "''2024-05-01T12:00:04''" False]
    e p
  show ?thesis by auto
qed

text \<open>
  C4 as stated fails: the description is \<open>str(e)\<close>, which is empty for an exception
  raised without arguments, such as \<open>MemoryError()\<close>; a poll then sees a failed task
  with an empty error string.
\<close>

theorem empty_error_description_counterexample:
  "get_analysis_status ''t3''
     (projr (perform_analysis ''2024-05-01T13:00:03'' ''2024-05-01T13:00:04'' False ''t3''
               silent_submitted)) =
   Inr \<lparr>resp_task_id = ''t3'', resp_status = ''failed'', resp_progress = 80,
        resp_message = Text_at 665, resp_result = None, resp_error = Some []\<rparr>"
proof -
  let ?t = "pending_task ''t3'' ''2024-05-01T13:00:00'' ''big.war''"
  let ?t80 = "?t\<lparr>status := ''processing'', progress := 80, message := Text_at 665\<rparr>"
  let ?s80 = "silent_submitted\<lparr>analysis_tasks :=
      (analysis_tasks silent_submitted)(''t3'' \<mapsto> ?t80)\<rparr>"
  have t: "analysis_tasks silent_submitted ''t3'' = Some ?t"
    by (simp add: silent_submitted_eq)
  have p: "file_path ?t80 = ''/tmp/t3_big.war''"
    by (simp add: pending_task_path path_join_def temp_dir_def suffix_to_prefix)
  have e: "analyze_war (temp_files ?s80) ''2024-05-01T13:00:03'' (file_path ?t80) =
      Inl (Raised ''MemoryError'' [])"
    unfolding p
    by (rule analyze_war_unreadable[of _ _ silent_archive])
       (simp_all add: silent_submitted_eq silent_archive_def)
  have t80: "analysis_tasks ?s80 ''t3'' = Some ?t80" by simp
  have "analysis_tasks (runner_finish ''2024-05-01T13:00:03'' ''2024-05-01T13:00:04'' False
          ''t3'' ?s80) ''t3'' =
      Some (?t80\<lparr>status := ''failed'', error := Some [], end_time := Some ''2024-05-01T13:00:04''\<rparr>)"
    unfolding runner_finish_same[OF t80] e by simp
  then show ?thesis
    unfolding perform_analysis_eq[OF t]
    by (simp add: get_analysis_status_def pending_task_def)
qed

section \<open>Submission\<close>

text \<open>
  C5.  A file name that does not end in \<open>.war\<close>, or a content of more than
  100 MiB, is answered with status 400 and leaves the whole state, so the registry,
  unchanged; a \<open>.war\<close> upload of exactly 100 MiB is never answered with an HTTP
  error and, the temporary file written, creates its task; one byte more is rejected.
\<close>

theorem upload_validation:
  "(\<not> suffix ''.war'' filename \<or> 100 * 1024 * 1024 < content_length content \<longrightarrow>
      (\<exists>detail. analyze_war_file new_id now open_error filename content s =
         (Inl (HTTPException 400 detail), s))) \<and>
   (suffix ''.war'' filename \<and> content_length content = 100 * 1024 * 1024 \<longrightarrow>
      (\<forall>code detail. fst (analyze_war_file new_id now open_error filename content s) \<noteq>
         Inl (HTTPException code detail)) \<and>
      (\<exists>s'. analyze_war_file new_id now None filename content s = (Inr (new_id, Text_at 639), s') \<and>
         analysis_tasks s' new_id = Some (pending_task new_id now filename))) \<and>
   (suffix ''.war'' filename \<and> content_length content = 100 * 1024 * 1024 + 1 \<longrightarrow>
      analyze_war_file new_id now open_error filename content s =
        (Inl (HTTPException 400 (Text_at 614)), s))"
proof (intro conjI impI)
  assume "\<not> suffix ''.war'' filename \<or> 100 * 1024 * 1024 < content_length content"
  then show "\<exists>detail. analyze_war_file new_id now open_error filename content s =
         (Inl (HTTPException 400 detail), s)"
    by (auto simp: analyze_war_file_def)
next
  assume a: "suffix ''.war'' filename \<and> content_length content = 100 * 1024 * 1024"
  show "\<forall>code detail. fst (analyze_war_file new_id now open_error filename content s) \<noteq>
         Inl (HTTPException code detail)"
    using a by (cases open_error) (simp_all add: analyze_war_file_def)
  show "\<exists>s'. analyze_war_file new_id now None filename content s = (Inr (new_id, Text_at 639), s') \<and>
         analysis_tasks s' new_id = Some (pending_task new_id now filename)"
    using a by (simp add: analyze_war_file_accept)
next
  assume "suffix ''.war'' filename \<and> content_length content = 100 * 1024 * 1024 + 1"
  then show "analyze_war_file new_id now open_error filename content s =
        (Inl (HTTPException 400 (Text_at 614)), s)"
    by (simp add: analyze_war_file_def)
qed

theorem upload_validation_witness:
  "analyze_war_file ''t4'' ''2024-05-01T14:00:00'' None ''notes.txt'' demo_archive demo_submitted =
     (Inl (HTTPException 400 (Text_at 608)), demo_submitted) \<and>
   (\<exists>s'. analyze_war_file ''t4'' ''2024-05-01T14:00:00'' None ''big.war'' exact_limit_upload
            demo_submitted = (Inr (''t4'', Text_at 639), s') \<and>
      analysis_tasks s' ''t4'' = Some (pending_task ''t4'' ''2024-05-01T14:00:00'' ''big.war'')) \<and>
   analyze_war_file ''t4'' ''2024-05-01T14:00:00'' None ''big.war''
     (exact_limit_upload\<lparr>content_length := 104857601\<rparr>) demo_submitted =
     (Inl (HTTPException 400 (Text_at 614)), demo_submitted)"
proof -
  have n: "\<not> suffix ''.war'' ''notes.txt''" by (simp add: suffix_to_prefix)
  have w: "suffix ''.war'' ''big.war''" by (simp add: suffix_to_prefix)
  have l: "content_length exact_limit_upload = 100 * 1024 * 1024"
    by (simp add: exact_limit_upload_def)
  have l1: "content_length (exact_limit_upload\<lparr>content_length := 104857601\<rparr>) = 100 * 1024 * 1024 + 1"
    by simp
  from upload_validation [of "''notes.txt''" demo_archive "''t4''" "''2024-05-01T14:00:00''" None
      demo_submitted] n
  obtain d where d: "analyze_war_file ''t4'' ''2024-05-01T14:00:00'' None ''notes.txt'' demo_archive
      demo_submitted = (Inl (HTTPException 400 d), demo_submitted)" by blast
  then have "d = Text_at 608" using n by (simp add: analyze_war_file_def)
  with d have 1: "analyze_war_file ''t4'' ''2024-05-01T14:00:00'' None ''notes.txt'' demo_archive
      demo_submitted = (Inl (HTTPException 400 (Text_at 608)), demo_submitted)" by simp
  from upload_validation [of "''big.war''" exact_limit_upload "''t4''" "''2024-05-01T14:00:00''"
      None demo_submitted] w l
  have 2: "\<exists>s'. analyze_war_file ''t4'' ''2024-05-01T14:00:00'' None ''big.war'' exact_limit_upload
            demo_submitted = (Inr (''t4'', Text_at 639), s') \<and>
      analysis_tasks s' ''t4'' = Some (pending_task ''t4'' ''2024-05-01T14:00:00'' ''big.war'')"
    by blast
  from upload_validation [of "''big.war''" "exact_limit_upload\<lparr>content_length := 104857601\<rparr>"
      "''t4''" "''2024-05-01T14:00:00''" None demo_submitted] w l1
  have 3: "analyze_war_file ''t4'' ''2024-05-01T14:00:00'' None ''big.war''
     (exact_limit_upload\<lparr>content_length := 104857601\<rparr>) demo_submitted =
     (Inl (HTTPException 400 (Text_at 614)), demo_submitted)"
    by blast
  from 1 2 3 show ?thesis by blast
qed

text \<open>
  C9, as the code has it.  Creating the registry entry never fails on account of the identifier:
  for every identifier, in the registry or not, an accepted upload stores a fresh
  pending task under it, replacing what was there, and leaves the other entries alone.
  The program has no \<open>DuplicateTask\<close> failure.
\<close>

theorem create_replaces_existing_entry:
  assumes "suffix ''.war'' filename" and "content_length content \<le> 100 * 1024 * 1024"
  shows "\<exists>s'. analyze_war_file new_id now None filename content s = (Inr (new_id, Text_at 639), s') \<and>
           analysis_tasks s' new_id = Some (pending_task new_id now filename) \<and>
           (\<forall>tid. tid \<noteq> new_id \<longrightarrow> analysis_tasks s' tid = analysis_tasks s tid)"
  by (simp add: analyze_war_file_accept[OF assms])

theorem create_replaces_existing_entry_witness:
  "analysis_tasks demo_at_80 ''t1'' =
     Some ((pending_task ''t1'' ''2024-05-01T10:00:00'' ''demo.war'')
            \<lparr>status := ''processing'', progress := 80, message := Text_at 665\<rparr>) \<and>
   (\<exists>s'. analyze_war_file ''t1'' ''2024-05-01T15:00:00'' None ''again.war'' demo_archive demo_at_80 =
      (Inr (''t1'', Text_at 639), s') \<and>
      analysis_tasks s' ''t1'' = Some (pending_task ''t1'' ''2024-05-01T15:00:00'' ''again.war''))"
proof -
  have "suffix ''.war'' ''again.war''" by (simp add: suffix_to_prefix)
  moreover have "content_length demo_archive \<le> 100 * 1024 * 1024"
    by (simp add: demo_archive_def)
  ultimately show ?thesis
    using create_replaces_existing_entry [of "''again.war''" demo_archive "''t1''"
        "''2024-05-01T15:00:00''" demo_at_80] demo_at_80_task
    by blast
qed

text \<open>
  C9 as stated fails: a submission under an identifier that is already registered
  succeeds, and the entry is a different task afterwards.
\<close>

theorem duplicate_task_counterexample:
  "analysis_tasks demo_submitted ''t1'' =
     Some (pending_task ''t1'' ''2024-05-01T10:00:00'' ''demo.war'') \<and>
   fst (analyze_war_file ''t1'' ''2024-05-01T11:00:00'' None ''other.war'' demo_archive
          demo_submitted) = Inr (''t1'', Text_at 639) \<and>
   analysis_tasks (snd (analyze_war_file ''t1'' ''2024-05-01T11:00:00'' None ''other.war''
          demo_archive demo_submitted)) ''t1'' =
     Some (pending_task ''t1'' ''2024-05-01T11:00:00'' ''other.war'') \<and>
   pending_task ''t1'' ''2024-05-01T11:00:00'' ''other.war'' \<noteq>
     pending_task ''t1'' ''2024-05-01T10:00:00'' ''demo.war''"
proof -
  have "suffix ''.war'' ''other.war''" by (simp add: suffix_to_prefix)
  moreover have "content_length demo_archive \<le> 100 * 1024 * 1024"
    by (simp add: demo_archive_def)
  ultimately have "analyze_war_file ''t1'' ''2024-05-01T11:00:00'' None ''other.war'' demo_archive
      demo_submitted =
     (Inr (''t1'', Text_at 639),
      demo_submitted\<lparr>temp_files := (temp_files demo_submitted)
          (path_join temp_dir (''t1'' @ ''_'' @ ''other.war'') \<mapsto> demo_archive),
        analysis_tasks := (analysis_tasks demo_submitted)
          (''t1'' \<mapsto> pending_task ''t1'' ''2024-05-01T11:00:00'' ''other.war''),
        background := (background demo_submitted)(''t1'' \<mapsto> 0)\<rparr>)"
    by (rule analyze_war_file_accept)
  moreover have "pending_task ''t1'' ''2024-05-01T11:00:00'' ''other.war'' \<noteq>
     pending_task ''t1'' ''2024-05-01T10:00:00'' ''demo.war''"
    by (simp add: pending_task_def)
  ultimately show ?thesis by (simp add: demo_submitted_eq)
qed

section \<open>The project name\<close>

text \<open>
  C10.  The project name should be the archive name without its trailing extension.
  Line 227 removes every occurrence of \<open>.war\<close>: for the archive name
  \<open>t1_my.warehouse.war\<close> the result is \<open>t1_myehouse\<close>, not
  \<open>t1_my.warehouse\<close>.
\<close>

theorem project_name_interior_extension:
  "\<exists>r. analyze_war [''/tmp/t1_my.warehouse.war'' \<mapsto> demo_archive] ''2024-05-01T10:00:03''
          ''/tmp/t1_my.warehouse.war'' = Inr r \<and>
     file_name (war_info r) = ''t1_my.warehouse.war'' \<and>
     project_name r = ''t1_myehouse'' \<and>
     project_name r \<noteq> ''t1_my.warehouse''"
proof -
  obtain r where r: "analyze_war [''/tmp/t1_my.warehouse.war'' \<mapsto> demo_archive]
      ''2024-05-01T10:00:03'' ''/tmp/t1_my.warehouse.war'' = Inr r"
    using analyze_war_Inr[of "[''/tmp/t1_my.warehouse.war'' \<mapsto> demo_archive]"
        "''/tmp/t1_my.warehouse.war''" demo_archive]
    by (auto simp: demo_archive_def)
  from analyze_war_project_name[OF r]
  have "file_name (war_info r) = ''t1_my.warehouse.war''" "project_name r = ''t1_myehouse''"
    by (simp_all add: basename_demo remove_demo)
  with r show ?thesis by auto
qed

section \<open>The inspector\<close>

text \<open>
  C8.  For every archive whose entry names can be listed, the library entries are
  exactly the names that contain \<open>spring\<close> regardless of case and end with
  \<open>.jar\<close>; the framework is detected when there is one, the first five are kept in
  archive order, and the version is the first version token of the first library entry
  that holds one, absent when none does.  An archive with 200 compiled units whose only
  \<open>.jar\<close> entry is \<open>spring-core-5.3.2.jar\<close> gives 200 classes, one jar, the
  framework detected and the version \<open>5.3.2\<close>.
\<close>

theorem inspector_library_detection:
  assumes "fs p = Some content" and "zip_namelist content = Inr file_list"
  shows "\<exists>si. analyze_war_structure fs p = Inr si \<and>
     spring_detected si = (filter spec_library_entry file_list \<noteq> []) \<and>
     jar_files si = take 5 (filter spec_library_entry file_list) \<and>
     spec_version (filter spec_library_entry file_list) (spring_version si) \<and>
     total_classes si = length (filter (suffix ''.class'') file_list) \<and>
     total_jars si = length (filter (suffix ''.jar'') file_list) \<and>
     (length (filter (suffix ''.class'') file_list) = 200 \<and>
      filter (suffix ''.jar'') file_list = [''spring-core-5.3.2.jar''] \<longrightarrow>
        total_classes si = 200 \<and> total_jars si = 1 \<and> spring_detected si \<and>
        spring_version si = Some ''5.3.2'' \<and> jar_files si = [''spring-core-5.3.2.jar''])"
proof -
  let ?libs = "filter is_spring_jar file_list"
  let ?si = "\<lparr>file_name = basename p, file_size_bytes = content_length content,
          web_inf_found = list_ex (sublist ''WEB-INF'') file_list,
          spring_detected = (?libs \<noteq> []),
          spring_version = first_version ?libs,
          total_classes = length (filter (suffix ''.class'') file_list),
          total_jars = length (filter (suffix ''.jar'') file_list),
          jar_files = take 5 ?libs\<rparr>"
  have eq: "analyze_war_structure fs p = Inr ?si"
    using assms by (rule analyze_war_structure_Inr[of fs p content file_list])
  have libs: "?libs = filter spec_library_entry file_list"
    by (rule filter_cong) (simp_all add: is_spring_jar_spec)
  have ver: "spec_version ?libs (first_version ?libs)" by (rule first_version_spec)
  have scen: "?libs = [''spring-core-5.3.2.jar'']"
    if "filter (suffix ''.jar'') file_list = [''spring-core-5.3.2.jar'']"
    using filter_spring_jars[of file_list] that by (simp add: spring_core_is_library)
  have "spring_detected ?si = (filter spec_library_entry file_list \<noteq> [])"
    "jar_files ?si = take 5 (filter spec_library_entry file_list)"
    "spec_version (filter spec_library_entry file_list) (spring_version ?si)"
    using libs ver by simp_all
  moreover have "length (filter (suffix ''.class'') file_list) = 200 \<and>
      filter (suffix ''.jar'') file_list = [''spring-core-5.3.2.jar''] \<longrightarrow>
        total_classes ?si = 200 \<and> total_jars ?si = 1 \<and> spring_detected ?si \<and>
        spring_version ?si = Some ''5.3.2'' \<and> jar_files ?si = [''spring-core-5.3.2.jar'']"
  proof (intro impI)
    assume "length (filter (suffix ''.class'') file_list) = 200 \<and>
      filter (suffix ''.jar'') file_list = [''spring-core-5.3.2.jar'']"
    then have c: "length (filter (suffix ''.class'') file_list) = 200"
      and j: "filter (suffix ''.jar'') file_list = [''spring-core-5.3.2.jar'']" by simp_all
    have l: "?libs = [''spring-core-5.3.2.jar'']" by (rule scen[OF j])
    have "first_version ?libs = Some ''5.3.2''"
      unfolding l by (rule spring_core_version)
    with c j l show "total_classes ?si = 200 \<and> total_jars ?si = 1 \<and> spring_detected ?si \<and>
        spring_version ?si = Some ''5.3.2'' \<and> jar_files ?si = [''spring-core-5.3.2.jar'']"
      by simp
  qed
  ultimately show ?thesis using eq by simp
qed

theorem inspector_library_detection_witness:
  "\<exists>si. analyze_war_structure [''/tmp/t5_app.war'' \<mapsto> scenario_archive] ''/tmp/t5_app.war'' =
          Inr si \<and>
     total_classes si = 200 \<and> total_jars si = 1 \<and> spring_detected si \<and>
     spring_version si = Some ''5.3.2'' \<and> jar_files si = [''spring-core-5.3.2.jar'']"
proof -
  have f: "[''/tmp/t5_app.war'' \<mapsto> scenario_archive] ''/tmp/t5_app.war'' = Some scenario_archive"
    by simp
  have z: "zip_namelist scenario_archive = Inr scenario_entries"
    by (simp add: scenario_archive_def)
  note c = scenario_classes
  from inspector_library_detection
      [of "[''/tmp/t5_app.war'' \<mapsto> scenario_archive]" "''/tmp/t5_app.war''" scenario_archive
        scenario_entries] f z c scenario_jars
  show ?thesis by auto
qed

end
